theory Spec2Isabelle
  imports Main "HOL-Library.Word"
begin

section \<open>Outgoing message dispatch of librelay-node\<close>

text \<open>
  A shallow embedding of class \<open>OutgoingMessage\<close> (the second module of
  \<open>src/storage/backbone-localstorage.js\<close>, from line 227 on). The object is a record that
  is passed through every method and returned updated; a \<open>throw\<close> (a rejected promise) is
  the \<open>Inl\<close> of a sum.
\<close>

subsection \<open>Data\<close>

type_synonym byte = "8 word"
type_synonym bytes = "byte list"
type_synonym addr = string

text \<open>
  A device id as the program meets it: a number (the server's JSON carries numbers) or a
  string (the ids that the storage of the repository lists are the texts after the dot of
  its session keys; section 9 of the specification names the mix). The strict \<open>===\<close> and
  \<open>!==\<close> and \<open>indexOf\<close> compare without conversion, so a number and a string are never
  equal: this is the equality of the type. String concatenation and the keys of an
  object use the text of the id, \<open>id_text\<close> below.
\<close>

datatype device_id = Num nat | Str string

text \<open>
  Modelled from the spec: the body of a 409 or 410 answer (module \<open>errors.js\<close> and the
  transport are not part of the sources). Section 6 gives
  \<open>response = {extraDevices, missingDevices}\<close> for 409 and \<open>{staleDevices}\<close> for 410; a
  field the body does not carry is \<open>undefined\<close> in the program and \<open>None\<close> here.
\<close>

record response =
  extraDevices :: "device_id list option"
  missingDevices :: "device_id list option"
  staleDevices :: "device_id list option"

text \<open>The object that \<open>SessionCipher.encrypt\<close> resolves to, as \<open>toJSON\<close> reads it.\<close>

record encrypted =
  enc_type :: nat
  enc_registrationId :: nat
  enc_body :: bytes

text \<open>
  The object built by \<open>toJSON\<close>. \<open>content\<close> holds the bytes of which the program sends
  the base64 text.
\<close>

record jsonmsg =
  msg_type :: nat
  destinationDeviceId :: device_id
  destinationRegistrationId :: nat
  content :: bytes

text \<open>
  Modelled from the spec: the error classes of \<open>errors.js\<close> (section 7 of the spec), one
  constructor per class with the constructor arguments the program passes. \<open>TypeError\<close> is
  the run-time error of reading a property of \<open>undefined\<close>, \<open>RangeError\<close> that of an
  out-of-range typed-array copy, and \<open>Error\<close> any other error object, known by its
  message. The last argument of \<open>OutgoingIdentityKeyError\<close> is its mutable flag
  \<open>accepted\<close>.
\<close>

datatype error =
    ProtocolError nat response
  | OutgoingMessageError addr bytes nat "error option"
  | OutgoingIdentityKeyError addr bytes nat bytes bool
  | UnregisteredUserError addr error
  | SendMessageError addr "jsonmsg list" error nat
  | TypeError string
  | RangeError string
  | Error string

text \<open>\<open>e instanceof errors.ProtocolError\<close>, \<open>e.code\<close>, \<open>e.response\<close>, \<open>e.message\<close>,
  \<open>keyError.accepted\<close>.\<close>

fun is_ProtocolError :: "error \<Rightarrow> bool" where
  "is_ProtocolError (ProtocolError c r) = True"
| "is_ProtocolError _ = False"

fun code :: "error \<Rightarrow> nat option" where
  "code (ProtocolError c r) = Some c"
| "code _ = None"

fun response_of :: "error \<Rightarrow> response option" where
  "response_of (ProtocolError c r) = Some r"
| "response_of _ = None"

fun error_message :: "error \<Rightarrow> string option" where
  "error_message (Error m) = Some m"
| "error_message (TypeError m) = Some m"
| "error_message (RangeError m) = Some m"
| "error_message _ = None"

fun accepted :: "error \<Rightarrow> bool" where
  "accepted (OutgoingIdentityKeyError a m t k acc) = acc"
| "accepted _ = False"

subsection \<open>Padding\<close>

text \<open>\<open>getPaddedMessageLength\<close>, lines 371 to 378.\<close>

definition getPaddedMessageLength :: "nat \<Rightarrow> nat" where
  "getPaddedMessageLength messageLength =
     (let messageLengthWithTerminator = messageLength + 1;
          messagePartCount = messageLengthWithTerminator div 160;
          messagePartCount = (if messageLengthWithTerminator mod 160 \<noteq> 0
                              then messagePartCount + 1 else messagePartCount)
      in messagePartCount * 160)"

text \<open>
  \<open>new Buffer(n)\<close>: \<open>n\<close> zero bytes (Node zero-fills the buffer of \<open>new Buffer(size)\<close>
  from version 8 on).
\<close>

definition Buffer_new :: "nat \<Rightarrow> bytes" where
  "Buffer_new n = replicate n 0"

text \<open>
  \<open>buf.set(src)\<close>: copy \<open>src\<close> to offset 0; a source longer than the buffer is a
  \<open>RangeError\<close>.
\<close>

definition Buffer_set :: "bytes \<Rightarrow> bytes \<Rightarrow> error + bytes" where
  "Buffer_set buf src =
     (if length src > length buf then Inl (RangeError ''offset is out of bounds'')
      else Inr (src @ drop (length src) buf))"

text \<open>
  Lines 383 to 386 of \<open>doSendMessage\<close>. An indexed store beyond the end of a typed array
  is ignored, as the list update is.
\<close>

definition paddedBuf_of :: "bytes \<Rightarrow> error + bytes" where
  "paddedBuf_of mBuf =
     (let minLen = getPaddedMessageLength (length mBuf + 1) - 1;
          buf = Buffer_new minLen
      in case Buffer_set buf mBuf of
           Inl e \<Rightarrow> Inl e
         | Inr buf \<Rightarrow> Inr (buf[length mBuf := 0x80]))"

text \<open>
  The length as the specification words it, \<open>ceil((len + 1) / 160) * 160 - 1\<close>, with the
  ceiling of a quotient of naturals written with \<open>div\<close>.
\<close>

definition spec_paddedLen :: "nat \<Rightarrow> nat" where
  "spec_paddedLen len = ((len + 1 + 159) div 160) * 160 - 1"

text \<open>The length the program computes: \<open>ceil((len + 2) / 160) * 160 - 1\<close>.\<close>

definition code_paddedLen :: "nat \<Rightarrow> nat" where
  "code_paddedLen len = ((len + 2 + 159) div 160) * 160 - 1"

subsection \<open>The collaborators\<close>

text \<open>
  A pre-key bundle as the program reads it: the device id, and the identity key that
  \<open>handleResult\<close> stores on it; the rest of the bundle is opaque.
\<close>

record device =
  deviceId :: device_id
  identityKey :: "bytes option"
  preKeys :: bytes

text \<open>What \<open>signal.getKeysForAddr\<close> resolves to.\<close>

record keys_response =
  resp_identityKey :: bytes
  devices :: "device list"

text \<open>The entries of the logs \<open>sent\<close> and \<open>errors\<close>. \<open>emitError\<close> stores the address and
  the reason on the error object; here they are fields of the entry that holds the error.\<close>

record sent_entry =
  sent_timestamp :: nat
  sent_addr :: addr

record error_entry =
  entry_timestamp :: nat
  entry_error :: error
  entry_addr :: addr
  entry_reason :: string

datatype payload = Sent_payload sent_entry | Error_payload error_entry | KeyChange_payload error

text \<open>
  Every call of a collaborator, with its answer, and every emitted event, in the order
  they happen.
\<close>

datatype event =
    Ev_getDeviceIds addr "error + device_id list"
  | Ev_removeSession string "error + unit"
  | Ev_hasOpenSession addr device_id "error + bool"
  | Ev_encrypt addr device_id bytes "error + encrypted"
  | Ev_closeOpenSessionForDevice addr device_id "error + unit"
  | Ev_processPreKey addr device "error + unit"
  | Ev_getKeysForAddr addr "device_id option" "error + keys_response"
  | Ev_sendMessages addr "jsonmsg list" nat "error + unit"
  | Ev_emit string payload

text \<open>
  The collaborators are outside the sources: the storage module, libsignal's
  \<open>SessionBuilder\<close> and \<open>SessionCipher\<close>, the transport \<open>signal\<close>, the protobuf encoder
  and the clock. Each is a function of the history so far, so every deterministic
  behaviour of theirs is an instance.
\<close>

record env =
  getDeviceIds :: "event list \<Rightarrow> addr \<Rightarrow> error + device_id list"
  removeSession :: "event list \<Rightarrow> string \<Rightarrow> error + unit"
  hasOpenSession :: "event list \<Rightarrow> addr \<Rightarrow> device_id \<Rightarrow> error + bool"
  encrypt :: "event list \<Rightarrow> addr \<Rightarrow> device_id \<Rightarrow> bytes \<Rightarrow> error + encrypted"
  closeOpenSessionForDevice :: "event list \<Rightarrow> addr \<Rightarrow> device_id \<Rightarrow> error + unit"
  processPreKey :: "event list \<Rightarrow> addr \<Rightarrow> device \<Rightarrow> error + unit"
  signal_getKeysForAddr :: "event list \<Rightarrow> addr \<Rightarrow> device_id option \<Rightarrow> error + keys_response"
  signal_sendMessages :: "event list \<Rightarrow> addr \<Rightarrow> jsonmsg list \<Rightarrow> nat \<Rightarrow> error + unit"
  Content_encode :: "bytes \<Rightarrow> bytes"
  Date_now :: "event list \<Rightarrow> nat"

text \<open>
  A registered callback. \<open>emit\<close> catches what a callback throws, and the only thing the
  program reads back from a payload is the flag \<open>accepted\<close> of a key error: a callback is
  the value it leaves in that flag, given the history, the payload and the flag before.
\<close>

type_synonym handler = "event list \<Rightarrow> payload \<Rightarrow> bool \<Rightarrow> bool"

text \<open>
  The fields of an \<open>OutgoingMessage\<close> (the transport \<open>signal\<close> is in \<^typ>\<open>env\<close>), and
  the history \<open>trace\<close>.
\<close>

record OutgoingMessage =
  timestamp :: nat
  message :: bytes
  sent :: "sent_entry list"
  errors :: "error_entry list"
  created :: nat
  listeners :: "string \<Rightarrow> handler list option"
  trace :: "event list"

type_synonym 'a result = "(error + 'a) \<times> OutgoingMessage"

text \<open>The constructor, lines 237 to 245.\<close>

definition OutgoingMessage_new :: "env \<Rightarrow> event list \<Rightarrow> nat \<Rightarrow> bytes \<Rightarrow> OutgoingMessage" where
  "OutgoingMessage_new env tr ts msg =
     \<lparr>timestamp = ts, message = msg, sent = [], errors = [], created = Date_now env tr,
      listeners = (\<lambda>ev. None), trace = tr\<rparr>"

definition log :: "event \<Rightarrow> OutgoingMessage \<Rightarrow> OutgoingMessage" where
  "log ev s = s\<lparr>trace := trace s @ [ev]\<rparr>"

text \<open>The calls of the collaborators: the answer is the collaborator's, and the call is
  recorded.\<close>

definition storage_getDeviceIds :: "env \<Rightarrow> addr \<Rightarrow> OutgoingMessage \<Rightarrow> device_id list result" where
  "storage_getDeviceIds env a s =
     (let r = getDeviceIds env (trace s) a in (r, log (Ev_getDeviceIds a r) s))"

definition storage_removeSession :: "env \<Rightarrow> string \<Rightarrow> OutgoingMessage \<Rightarrow> unit result" where
  "storage_removeSession env encodedAddr s =
     (let r = removeSession env (trace s) encodedAddr in (r, log (Ev_removeSession encodedAddr r) s))"

definition cipher_hasOpenSession :: "env \<Rightarrow> addr \<Rightarrow> device_id \<Rightarrow> OutgoingMessage \<Rightarrow> bool result" where
  "cipher_hasOpenSession env a d s =
     (let r = hasOpenSession env (trace s) a d in (r, log (Ev_hasOpenSession a d r) s))"

definition builder_processPreKey :: "env \<Rightarrow> addr \<Rightarrow> device \<Rightarrow> OutgoingMessage \<Rightarrow> unit result" where
  "builder_processPreKey env a dev s =
     (let r = processPreKey env (trace s) a dev in (r, log (Ev_processPreKey a dev r) s))"

definition signal_getKeys :: "env \<Rightarrow> addr \<Rightarrow> device_id option \<Rightarrow> OutgoingMessage \<Rightarrow> keys_response result" where
  "signal_getKeys env a d s =
     (let r = signal_getKeysForAddr env (trace s) a d in (r, log (Ev_getKeysForAddr a d r) s))"

definition signal_send :: "env \<Rightarrow> addr \<Rightarrow> jsonmsg list \<Rightarrow> nat \<Rightarrow> OutgoingMessage \<Rightarrow> unit result" where
  "signal_send env a jsonData ts s =
     (let r = signal_sendMessages env (trace s) a jsonData ts
      in (r, log (Ev_sendMessages a jsonData ts r) s))"

subsection \<open>Events\<close>

text \<open>\<open>on\<close>, lines 247 to 253.\<close>

definition on :: "string \<Rightarrow> handler \<Rightarrow> OutgoingMessage \<Rightarrow> OutgoingMessage" where
  "on ev callback s =
     (let handlers = (case listeners s ev of None \<Rightarrow> [] | Some hs \<Rightarrow> hs)
      in s\<lparr>listeners := (listeners s)(ev \<mapsto> handlers @ [callback])\<rparr>)"

text \<open>
  \<open>emit\<close>, lines 255 to 268: the callbacks run in the order of registration. The
  history records the event whether or not a callback is registered. The result
  is the flag \<open>accepted\<close> of the payload after the last callback, \<open>acc\<close> being its value
  before the first.
\<close>

definition emit :: "string \<Rightarrow> payload \<Rightarrow> bool \<Rightarrow> OutgoingMessage \<Rightarrow> bool \<times> OutgoingMessage" where
  "emit ev args acc s =
     (let s1 = log (Ev_emit ev args) s
      in case listeners s1 ev of
           None \<Rightarrow> (acc, s1)
         | Some handlers \<Rightarrow> (fold (\<lambda>callback a. callback (trace s1) args a) handlers acc, s1))"

text \<open>\<open>emitError\<close>, lines 270 to 282. \<open>error\<close> is \<open>None\<close> for a missing or falsy
  argument.\<close>

definition emitError :: "env \<Rightarrow> addr \<Rightarrow> string \<Rightarrow> error option \<Rightarrow> OutgoingMessage \<Rightarrow> OutgoingMessage" where
  "emitError env a reason error s =
     (let error = (case error of
                     None \<Rightarrow> OutgoingMessageError a (message s) (timestamp s) None
                   | Some e \<Rightarrow>
                       if is_ProtocolError e \<and> code e \<noteq> Some 404
                       then OutgoingMessageError a (message s) (timestamp s) (Some e)
                       else e);
          entry = \<lparr>entry_timestamp = Date_now env (trace s), entry_error = error,
                   entry_addr = a, entry_reason = reason\<rparr>;
          s1 = s\<lparr>errors := errors s @ [entry]\<rparr>
      in snd (emit ''error'' (Error_payload entry) False s1))"

text \<open>\<open>emitSent\<close>, lines 284 to 291.\<close>

definition emitSent :: "env \<Rightarrow> addr \<Rightarrow> OutgoingMessage \<Rightarrow> OutgoingMessage" where
  "emitSent env a s =
     (let entry = \<lparr>sent_timestamp = Date_now env (trace s), sent_addr = a\<rparr>;
          s1 = s\<lparr>sent := sent s @ [entry]\<rparr>
      in snd (emit ''sent'' (Sent_payload entry) False s1))"

subsection \<open>Device reconciliation\<close>

text \<open>\<open>removeDeviceIdsForAddr\<close>, lines 460 to 465. \<open>string_of_nat\<close> is the decimal text
  that \<open>addr + "." + id\<close> appends.\<close>

definition string_of_digit :: "nat \<Rightarrow> char" where
  "string_of_digit n = ''0123456789'' ! (n mod 10)"

fun string_of_nat :: "nat \<Rightarrow> string" where
  "string_of_nat n =
     (if n < 10 then [string_of_digit n]
      else string_of_nat (n div 10) @ [string_of_digit (n mod 10)])"

declare string_of_nat.simps [simp del]

text \<open>The text of a device id: the decimal digits of a number, a string as it is.\<close>

fun id_text :: "device_id \<Rightarrow> string" where
  "id_text (Num n) = string_of_nat n"
| "id_text (Str t) = t"

definition encodedAddr :: "addr \<Rightarrow> device_id \<Rightarrow> string" where
  "encodedAddr a d = a @ ''.'' @ id_text d"

fun removeDeviceIdsForAddr :: "env \<Rightarrow> addr \<Rightarrow> device_id list \<Rightarrow> OutgoingMessage \<Rightarrow> unit result" where
  "removeDeviceIdsForAddr env a [] s = (Inr (), s)"
| "removeDeviceIdsForAddr env a (d # deviceIdsToRemove) s =
     (case storage_removeSession env (encodedAddr a d) s of
        (Inl e, s1) \<Rightarrow> (Inl e, s1)
      | (Inr u, s1) \<Rightarrow> removeDeviceIdsForAddr env a deviceIdsToRemove s1)"

text \<open>\<open>getStaleDeviceIdsForAddr\<close>, lines 444 to 458; \<open>staleLoop\<close> is its \<open>for\<close> loop.\<close>

fun staleLoop ::
    "env \<Rightarrow> addr \<Rightarrow> device_id list \<Rightarrow> device_id list \<Rightarrow> OutgoingMessage
      \<Rightarrow> device_id list result" where
  "staleLoop env a [] updateDevices s = (Inr updateDevices, s)"
| "staleLoop env a (d # deviceIds) updateDevices s =
     (case cipher_hasOpenSession env a d s of
        (Inl e, s1) \<Rightarrow> (Inl e, s1)
      | (Inr isOpen, s1) \<Rightarrow>
          staleLoop env a deviceIds (if \<not> isOpen then updateDevices @ [d] else updateDevices) s1)"

definition getStaleDeviceIdsForAddr ::
    "env \<Rightarrow> addr \<Rightarrow> OutgoingMessage \<Rightarrow> device_id list result" where
  "getStaleDeviceIdsForAddr env a s =
     (case storage_getDeviceIds env a s of
        (Inl e, s1) \<Rightarrow> (Inl e, s1)
      | (Inr deviceIds, s1) \<Rightarrow>
          if deviceIds = [] then (Inr [], s1) else staleLoop env a deviceIds [] s1)"

subsection \<open>Key exchange\<close>

text \<open>
  \<open>getKeysForAddr\<close>, lines 298 to 352. \<open>handleResult_job\<close> is the anonymous function
  applied to each device of a response, \<open>handleResult_jobs\<close> the loop that starts the
  jobs together with the \<open>Promise.all\<close> that joins them, \<open>getKeysForAddr_loop\<close> the
  \<open>for\<close> loop over \<open>updateDevices\<close>. \<open>updateDevices\<close> is \<open>None\<close> for \<open>undefined\<close>.
  The jobs of one response run here one after the other in the order of the response,
  and the first that fails ends \<open>handleResult\<close> with its error: this is what happens
  for a response with one device, as a fetch for one device gives. The test
  \<open>updateDevices.indexOf(device.deviceId) > -1\<close> of line 305 and the test
  \<open>device !== 1\<close> of line 344 are strict: they are membership and inequality in
  \<^typ>\<open>device_id\<close>, where the string \<open>"1"\<close> is not the number \<open>1\<close>.
\<close>

text \<open>A reentrant call makes no further call of \<open>getKeysForAddr\<close>: the rank of a call
  for the termination order.\<close>

definition reentrant_rank :: "bool \<Rightarrow> nat" where
  "reentrant_rank reentrant = (if reentrant then 0 else 1)"

function
  handleResult_job ::
    "env \<Rightarrow> addr \<Rightarrow> device_id list option \<Rightarrow> bool \<Rightarrow> keys_response \<Rightarrow> device \<Rightarrow> OutgoingMessage
      \<Rightarrow> unit result"
and handleResult_jobs ::
    "env \<Rightarrow> addr \<Rightarrow> device_id list option \<Rightarrow> bool \<Rightarrow> keys_response \<Rightarrow> device list \<Rightarrow> OutgoingMessage
      \<Rightarrow> unit result"
and getKeysForAddr_loop ::
    "env \<Rightarrow> addr \<Rightarrow> device_id list option \<Rightarrow> bool \<Rightarrow> device_id list \<Rightarrow> OutgoingMessage \<Rightarrow> unit result"
and getKeysForAddr ::
    "env \<Rightarrow> addr \<Rightarrow> device_id list option \<Rightarrow> bool \<Rightarrow> OutgoingMessage \<Rightarrow> unit result"
where
  "handleResult_job env a updateDevices reentrant response dev s =
     (let dev = dev\<lparr>identityKey := Some (resp_identityKey response)\<rparr>
      in if (case updateDevices of None \<Rightarrow> True | Some ds \<Rightarrow> deviceId dev \<in> set ds)
         then (case builder_processPreKey env a dev s of
                 (Inr u, s1) \<Rightarrow> (Inr (), s1)
               | (Inl e, s1) \<Rightarrow>
                   if error_message e = Some ''Identity key changed''
                   then (let keyError = OutgoingIdentityKeyError a (message s1) (timestamp s1)
                                          (resp_identityKey response) False
                         in if \<not> reentrant
                            then (case emit ''keychange'' (KeyChange_payload keyError) False s1 of
                                    (acc, s2) \<Rightarrow>
                                      if \<not> acc
                                      then (Inl (OutgoingIdentityKeyError a (message s1)
                                                   (timestamp s1) (resp_identityKey response) acc), s2)
                                      else getKeysForAddr env a updateDevices True s2)
                            else (Inl keyError, s1))
                   else (Inl e, s1))
         else (Inr (), s))"
| "handleResult_jobs env a updateDevices reentrant response [] s = (Inr (), s)"
| "handleResult_jobs env a updateDevices reentrant response (x # xs) s =
     (case handleResult_job env a updateDevices reentrant response x s of
        (Inl e, s1) \<Rightarrow> (Inl e, s1)
      | (Inr u, s1) \<Rightarrow> handleResult_jobs env a updateDevices reentrant response xs s1)"
| "getKeysForAddr_loop env a updateDevices reentrant [] s = (Inr (), s)"
| "getKeysForAddr_loop env a updateDevices reentrant (dev # rest) s =
     (case (case signal_getKeys env a (Some dev) s of
              (Inl e, s1) \<Rightarrow> (Inl e, s1)
            | (Inr response, s1) \<Rightarrow>
                handleResult_jobs env a updateDevices reentrant response (devices response) s1) of
        (Inr u, s2) \<Rightarrow> getKeysForAddr_loop env a updateDevices reentrant rest s2
      | (Inl e, s2) \<Rightarrow>
          if is_ProtocolError e \<and> code e = Some 404 \<and> dev \<noteq> Num 1
          then (case removeDeviceIdsForAddr env a [dev] s2 of
                  (Inl e', s3) \<Rightarrow> (Inl e', s3)
                | (Inr u, s3) \<Rightarrow> getKeysForAddr_loop env a updateDevices reentrant rest s3)
          else (Inl e, s2))"
| "getKeysForAddr env a updateDevices reentrant s =
     (case updateDevices of
        None \<Rightarrow>
          (case signal_getKeys env a None s of
             (Inl e, s1) \<Rightarrow> (Inl e, s1)
           | (Inr response, s1) \<Rightarrow>
               handleResult_jobs env a updateDevices reentrant response (devices response) s1)
      | Some ds \<Rightarrow> getKeysForAddr_loop env a updateDevices reentrant ds s)"
  by pat_completeness auto
termination
  by (relation "inv_image (less_than <*lex*> less_than <*lex*> less_than)
        (\<lambda>x. case x of
           Inl (Inl (env, a, u, r, resp, dev, s)) \<Rightarrow> (reentrant_rank r, 0::nat, 0::nat)
         | Inl (Inr (env, a, u, r, resp, ds, s)) \<Rightarrow> (reentrant_rank r, 1, length ds)
         | Inr (Inl (env, a, u, r, ds, s)) \<Rightarrow> (reentrant_rank r, 2, length ds)
         | Inr (Inr (env, a, u, r, s)) \<Rightarrow> (reentrant_rank r, 3, 0))")
     (auto simp: reentrant_rank_def split: prod.splits)

subsection \<open>Encrypt and transmit\<close>

text \<open>\<open>transmitMessage\<close>, lines 354 to 369.\<close>

definition transmitMessage :: "env \<Rightarrow> addr \<Rightarrow> jsonmsg list \<Rightarrow> nat \<Rightarrow> OutgoingMessage \<Rightarrow> unit result" where
  "transmitMessage env a jsonData ts s =
     (case signal_send env a jsonData ts s of
        (Inr u, s1) \<Rightarrow> (Inr u, s1)
      | (Inl e, s1) \<Rightarrow>
          if is_ProtocolError e \<and> (code e \<noteq> Some 409 \<and> code e \<noteq> Some 410)
          then (if code e = Some 404 then (Inl (UnregisteredUserError a e), s1)
                else (Inl (SendMessageError a jsonData e ts), s1))
          else (Inl e, s1))"

text \<open>\<open>toJSON\<close>, lines 435 to 442, and \<open>encryptToDevice\<close>, lines 430 to 433. A
  \<open>SignalProtocolAddress\<close> is the pair of its address and device id.\<close>

definition toJSON :: "addr \<times> device_id \<Rightarrow> encrypted \<Rightarrow> jsonmsg" where
  "toJSON address encryptedMsg =
     \<lparr>msg_type = enc_type encryptedMsg, destinationDeviceId = snd address,
      destinationRegistrationId = enc_registrationId encryptedMsg,
      content = enc_body encryptedMsg\<rparr>"

definition encryptToDevice ::
    "env \<Rightarrow> addr \<times> device_id \<Rightarrow> bytes \<Rightarrow> OutgoingMessage \<Rightarrow> (error + jsonmsg) \<times> OutgoingMessage" where
  "encryptToDevice env address mBuf s =
     (let r = encrypt env (trace s) (fst address) (snd address) mBuf;
          s1 = log (Ev_encrypt (fst address) (snd address) mBuf r) s
      in case r of
           Inl e \<Rightarrow> (Inl e, s1)
         | Inr encryptedMsg \<Rightarrow> (Inr (toJSON address encryptedMsg), s1))"

text \<open>
  \<open>Promise.all\<close> of promises that have settled: the list of the values, or the first
  rejection in the order of the list.
\<close>

fun Promise_all :: "(error + 'a) list \<Rightarrow> error + 'a list" where
  "Promise_all [] = Inr []"
| "Promise_all (Inl e # ps) = Inl e"
| "Promise_all (Inr x # ps) = (case Promise_all ps of Inl e \<Rightarrow> Inl e | Inr xs \<Rightarrow> Inr (x # xs))"

text \<open>
  The object \<open>ciphers\<close> that \<open>doSendMessage\<close> keeps: its keys are the texts of the
  device ids (a property key is a string, so \<open>ciphers[2]\<close> and \<open>ciphers["2"]\<close> are the
  same entry); a cipher is the address it was made for.
\<close>

type_synonym ciphers = "string \<Rightarrow> (addr \<times> device_id) option"

text \<open>Lines 389 to 394 of \<open>doSendMessage\<close>: \<open>deviceIds.map\<close> makes a cipher for each
  device id, keeps it and starts the encryption.\<close>

fun encryptAll ::
    "env \<Rightarrow> addr \<Rightarrow> bytes \<Rightarrow> device_id list \<Rightarrow> ciphers \<Rightarrow> OutgoingMessage
      \<Rightarrow> ciphers \<times> (error + jsonmsg) list \<times> OutgoingMessage" where
  "encryptAll env a paddedBuf [] ciphers s = (ciphers, [], s)"
| "encryptAll env a paddedBuf (d # deviceIds) ciphers s =
     (let address = (a, d);
          ciphers = ciphers(id_text (snd address) \<mapsto> address)
      in case encryptToDevice env address paddedBuf s of
           (r, s1) \<Rightarrow>
             (case encryptAll env a paddedBuf deviceIds ciphers s1 of
                (ciphers, rs, s2) \<Rightarrow> (ciphers, r # rs, s2)))"

text \<open>Lines 410 and 411: \<open>staleDevices.map(x => ciphers[x].closeOpenSessionForDevice())\<close>.
  A device id without a cipher ends the \<open>map\<close> with a \<open>TypeError\<close>.\<close>

fun closeStale ::
    "env \<Rightarrow> ciphers \<Rightarrow> device_id list \<Rightarrow> OutgoingMessage
      \<Rightarrow> (error + (error + unit) list) \<times> OutgoingMessage" where
  "closeStale env ciphers [] s = (Inr [], s)"
| "closeStale env ciphers (x # xs) s =
     (case ciphers (id_text x) of
        None \<Rightarrow> (Inl (TypeError ''Cannot read property closeOpenSessionForDevice of undefined''), s)
      | Some address \<Rightarrow>
          (let r = closeOpenSessionForDevice env (trace s) (fst address) (snd address);
               s1 = log (Ev_closeOpenSessionForDevice (fst address) (snd address) r) s
           in case closeStale env ciphers xs s1 of
                (Inl e, s2) \<Rightarrow> (Inl e, s2)
              | (Inr rs, s2) \<Rightarrow> (Inr (r # rs), s2)))"

text \<open>
  Lines 407 to 415 of \<open>doSendMessage\<close>: what the handler of a 409 or 410 does with the
  protocol error \<open>e\<close> before it sends again.
\<close>

definition reconcile :: "env \<Rightarrow> addr \<Rightarrow> ciphers \<Rightarrow> error \<Rightarrow> OutgoingMessage \<Rightarrow> unit result" where
  "reconcile env a ciphers e s =
     (case response_of e of
        None \<Rightarrow> (Inl (TypeError ''Cannot read property of undefined''), s)
      | Some resp \<Rightarrow>
          (case (if code e = Some 409
                 then (case extraDevices resp of
                         None \<Rightarrow> (Inl (TypeError ''undefined is not iterable''), s)
                       | Some ds \<Rightarrow> removeDeviceIdsForAddr env a ds s)
                 else (case staleDevices resp of
                         None \<Rightarrow> (Inl (TypeError ''Cannot read property map of undefined''), s)
                       | Some ds \<Rightarrow>
                           (case closeStale env ciphers ds s of
                              (Inl e', s1) \<Rightarrow> (Inl e', s1)
                            | (Inr rs, s1) \<Rightarrow>
                                (case Promise_all rs of
                                   Inl e' \<Rightarrow> (Inl e', s1)
                                 | Inr us \<Rightarrow> (Inr (), s1))))) of
             (Inl e', s1) \<Rightarrow> (Inl e', s1)
           | (Inr u, s1) \<Rightarrow>
               (let resetDevices = (if code e = Some 410 then staleDevices resp
                                    else missingDevices resp)
                in getKeysForAddr env a resetDevices False s1)))"

text \<open>
  \<open>reloadDevicesAndSend\<close>, lines 293 to 296, and \<open>doSendMessage\<close>, lines 380 to 428.
  A 409 sends again with \<open>recurse\<close> still true, so the recursion need not end: the first
  argument after \<open>env\<close> bounds the number of nested calls of \<open>doSendMessage\<close>. The
  first component of the result is \<open>None\<close> for a run that needs more than that, with the
  object as it is when the bound is reached; it is \<open>Some (Inl e)\<close> for a call that throws
  \<open>e\<close> and \<open>Some (Inr ())\<close> for a call that returns.
\<close>

type_synonym 'a bounded = "(error + 'a) option \<times> OutgoingMessage"

function
  reloadDevicesAndSend ::
    "env \<Rightarrow> nat \<Rightarrow> addr \<Rightarrow> bool \<Rightarrow> OutgoingMessage \<Rightarrow> unit bounded"
and doSendMessage ::
    "env \<Rightarrow> nat \<Rightarrow> addr \<Rightarrow> device_id list \<Rightarrow> bool \<Rightarrow> OutgoingMessage \<Rightarrow> unit bounded"
where
  "reloadDevicesAndSend env n a recurse s =
     (case storage_getDeviceIds env a s of
        (Inl e, s1) \<Rightarrow> (Some (Inl e), s1)
      | (Inr deviceIds, s1) \<Rightarrow> doSendMessage env n a deviceIds recurse s1)"
| "doSendMessage env 0 a deviceIds recurse s = (None, s)"
| "doSendMessage env (Suc n) a deviceIds recurse s =
     (let mBuf = Content_encode env (message s)
      in case paddedBuf_of mBuf of
           Inl e \<Rightarrow> (Some (Inl e), s)
         | Inr paddedBuf \<Rightarrow>
             (case encryptAll env a paddedBuf deviceIds (\<lambda>d. None) s of
                (ciphers, rs, s1) \<Rightarrow>
                  (case Promise_all rs of
                     Inl e \<Rightarrow>
                       (Some (Inr ()), emitError env a ''Failed to create message'' (Some e) s1)
                   | Inr messages \<Rightarrow>
                       (case transmitMessage env a messages (timestamp s1) s1 of
                          (Inr u, s2) \<Rightarrow> (Some (Inr ()), emitSent env a s2)
                        | (Inl e, s2) \<Rightarrow>
                            if is_ProtocolError e \<and> (code e = Some 410 \<or> code e = Some 409)
                            then if \<not> recurse
                                 then (Some (Inr ()), emitError env a
                                         ''Hit retry limit attempting to reload device list''
                                         (Some e) s2)
                                 else (case reconcile env a ciphers e s2 of
                                         (Inl e', s3) \<Rightarrow> (Some (Inl e'), s3)
                                       | (Inr u, s3) \<Rightarrow>
                                           (case reloadDevicesAndSend env n a
                                                   (code e = Some 409) s3 of
                                              (None, s4) \<Rightarrow> (None, s4)
                                            | (Some (Inl e'), s4) \<Rightarrow>
                                                (Some (Inr ()), emitError env a
                                                   ''Failed to reload device keys'' (Some e') s4)
                                            | (Some (Inr u), s4) \<Rightarrow>
                                                (Some (Inr ()), emitSent env a s4)))
                            else (Some (Inr ()), emitError env a ''Failed to send message''
                                                   (Some e) s2)))))"
  by pat_completeness auto
termination
  by (relation "measure (\<lambda>x. case x of
           Inl (env, n, a, r, s) \<Rightarrow> 2 * n + 1
         | Inr (env, n, a, ds, r, s) \<Rightarrow> 2 * n)")
     auto

subsection \<open>The dispatch\<close>

text \<open>\<open>sendToAddr\<close>, lines 467 to 487. It never throws: the result is \<open>Some ()\<close> with
  the object when it returns, and \<open>None\<close> when the bound on the nested sends is reached.\<close>

definition sendToAddr :: "env \<Rightarrow> nat \<Rightarrow> addr \<Rightarrow> OutgoingMessage \<Rightarrow> unit option \<times> OutgoingMessage" where
  "sendToAddr env n a s =
     (case getStaleDeviceIdsForAddr env a s of
        (Inl e, s1) \<Rightarrow>
          (Some (), emitError env a (''Failed to get device ids for address '' @ a) (Some e) s1)
      | (Inr updateDevices, s1) \<Rightarrow>
          (case getKeysForAddr env a (Some updateDevices) False s1 of
             (Inl e, s2) \<Rightarrow>
               (Some (), emitError env a
                           (''Failed to retrieve new device keys for address '' @ a) (Some e) s2)
           | (Inr u, s2) \<Rightarrow>
               (case reloadDevicesAndSend env n a True s2 of
                  (None, s3) \<Rightarrow> (None, s3)
                | (Some (Inl e), s3) \<Rightarrow>
                    (Some (), emitError env a (''Failed to send to address '' @ a) (Some e) s3)
                | (Some (Inr u), s3) \<Rightarrow> (Some (), s3))))"

subsection \<open>Observations and scenarios\<close>

text \<open>What is read off a history: the sends, the key fetches, the prompts.\<close>

fun is_sendMessages :: "event \<Rightarrow> bool" where
  "is_sendMessages (Ev_sendMessages a m t r) = True"
| "is_sendMessages _ = False"

fun is_keychange :: "event \<Rightarrow> bool" where
  "is_keychange (Ev_emit ev p) = (ev = ''keychange'')"
| "is_keychange _ = False"

text \<open>
  The events that a call adds to the history, and the two relations between the object
  before and after a call that the invariants are stated with: \<open>extends P\<close> when the
  timestamp, the message and the listeners are kept and every added event satisfies \<open>P\<close>,
  \<open>quiet P\<close> when moreover the logs \<open>sent\<close> and \<open>errors\<close> are kept.
\<close>

definition new_events :: "OutgoingMessage \<Rightarrow> OutgoingMessage \<Rightarrow> event list" where
  "new_events s s' = drop (length (trace s)) (trace s')"

definition extends :: "(event \<Rightarrow> bool) \<Rightarrow> OutgoingMessage \<Rightarrow> OutgoingMessage \<Rightarrow> bool" where
  "extends P s s' \<longleftrightarrow>
     timestamp s' = timestamp s \<and> message s' = message s \<and> listeners s' = listeners s
     \<and> trace s' = trace s @ new_events s s' \<and> list_all P (new_events s s')"

definition quiet :: "(event \<Rightarrow> bool) \<Rightarrow> OutgoingMessage \<Rightarrow> OutgoingMessage \<Rightarrow> bool" where
  "quiet P s s' \<longleftrightarrow> extends P s s' \<and> sent s' = sent s \<and> errors s' = errors s"

text \<open>A send carries the timestamp \<open>ts\<close>.\<close>

fun send_timestamp_ok :: "nat \<Rightarrow> event \<Rightarrow> bool" where
  "send_timestamp_ok ts (Ev_sendMessages a m t r) = (t = ts)"
| "send_timestamp_ok ts _ = True"

text \<open>The outcome of a dispatch: whether it returned, the addresses of the log \<open>sent\<close> and
  the reasons of the log \<open>errors\<close>.\<close>

definition outcome :: "unit option \<times> OutgoingMessage \<Rightarrow> unit option \<times> addr list \<times> string list" where
  "outcome x = (fst x, map sent_addr (sent (snd x)), map entry_reason (errors (snd x)))"

text \<open>Collaborators that never fail: one device with an open session, which the storage
  lists as the string \<open>"1"\<close>, and a server that accepts every send.\<close>

definition env_ok :: env where
  "env_ok =
     \<lparr>getDeviceIds = (\<lambda>tr a. Inr [Str ''1'']),
      removeSession = (\<lambda>tr x. Inr ()),
      hasOpenSession = (\<lambda>tr a d. Inr True),
      encrypt = (\<lambda>tr a d b. Inr \<lparr>enc_type = 1, enc_registrationId = 7, enc_body = []\<rparr>),
      closeOpenSessionForDevice = (\<lambda>tr a d. Inr ()),
      processPreKey = (\<lambda>tr a d. Inr ()),
      signal_getKeysForAddr = (\<lambda>tr a d. Inr \<lparr>resp_identityKey = [], devices = []\<rparr>),
      signal_sendMessages = (\<lambda>tr a m t. Inr ()),
      Content_encode = (\<lambda>m. m),
      Date_now = (\<lambda>tr. length tr)\<rparr>"

text \<open>A server that answers every send with a 410 for device 1.\<close>

definition env_410_always :: env where
  "env_410_always =
     env_ok\<lparr>signal_sendMessages := (\<lambda>tr a m t.
       Inl (ProtocolError 410
              \<lparr>extraDevices = None, missingDevices = None, staleDevices = Some [Num 1]\<rparr>))\<rparr>"

text \<open>A body without device lists.\<close>

definition no_devices :: response where
  "no_devices = \<lparr>extraDevices = None, missingDevices = None, staleDevices = None\<rparr>"

text \<open>
  Lines 381 to 400 of \<open>doSendMessage\<close>, for a call that gets as far as the send: the
  ciphers it keeps, what \<open>transmitMessage\<close> returns or throws, and the object after it.
  \<open>None\<close> is a call that ends before the send.
\<close>

definition attempt ::
    "env \<Rightarrow> addr \<Rightarrow> device_id list \<Rightarrow> OutgoingMessage
      \<Rightarrow> (ciphers \<times> (error + unit) \<times> OutgoingMessage) option" where
  "attempt env a deviceIds s =
     (case paddedBuf_of (Content_encode env (message s)) of
        Inl e \<Rightarrow> None
      | Inr paddedBuf \<Rightarrow>
          (case encryptAll env a paddedBuf deviceIds (\<lambda>d. None) s of
             (ciphers, rs, s1) \<Rightarrow>
               (case Promise_all rs of
                  Inl e \<Rightarrow> None
                | Inr messages \<Rightarrow>
                    (case transmitMessage env a messages (timestamp s1) s1 of
                       (r, s2) \<Rightarrow> Some (ciphers, r, s2)))))"

fun is_closeOpenSession :: "event \<Rightarrow> bool" where
  "is_closeOpenSession (Ev_closeOpenSessionForDevice a d r) = True"
| "is_closeOpenSession _ = False"

text \<open>The key fetches of a history: the address and the device asked for.\<close>

fun fetched :: "event list \<Rightarrow> (addr \<times> device_id option) list" where
  "fetched [] = []"
| "fetched (Ev_getKeysForAddr a d r # evs) = (a, d) # fetched evs"
| "fetched (ev # evs) = fetched evs"

text \<open>A fetch asks for a device of \<open>ds\<close> at the address \<open>a\<close>.\<close>

fun fetch_within :: "addr \<Rightarrow> device_id list \<Rightarrow> event \<Rightarrow> bool" where
  "fetch_within a ds (Ev_getKeysForAddr a' d r) = (a' = a \<and> d \<in> Some ` set ds)"
| "fetch_within a ds _ = True"

text \<open>A server that answers every send with a 410 for device 2.\<close>

definition env_410_unknown_device :: env where
  "env_410_unknown_device =
     env_ok\<lparr>signal_sendMessages := (\<lambda>tr a m t.
       Inl (ProtocolError 410
              \<lparr>extraDevices = None, missingDevices = None, staleDevices = Some [Num 2]\<rparr>))\<rparr>"

text \<open>The answers to the sends of a history, in order.\<close>

fun send_results :: "event list \<Rightarrow> (error + unit) list" where
  "send_results [] = []"
| "send_results (Ev_sendMessages a m t r # evs) = r # send_results evs"
| "send_results (ev # evs) = send_results evs"

definition sends :: "OutgoingMessage \<Rightarrow> OutgoingMessage \<Rightarrow> (error + unit) list" where
  "sends s s' = send_results (new_events s s')"

fun is_410 :: "error + unit \<Rightarrow> bool" where
  "is_410 (Inl (ProtocolError c r)) = (c = 410)"
| "is_410 _ = False"

text \<open>Every answer 410 is followed by at most one more send.\<close>

fun stops_after_410 :: "(error + unit) list \<Rightarrow> bool" where
  "stops_after_410 [] = True"
| "stops_after_410 (r # rs) = ((\<not> is_410 r \<or> length rs \<le> 1) \<and> stops_after_410 rs)"

text \<open>What the sends of a call look like: at most one when \<open>recurse\<close> is false.\<close>

definition sends_ok :: "bool \<Rightarrow> (error + unit) list \<Rightarrow> bool" where
  "sends_ok recurse rs \<longleftrightarrow> (\<not> recurse \<longrightarrow> length rs \<le> 1) \<and> stops_after_410 rs"

text \<open>A server that answers the first send with a 409 (device 3 is extra, device 4 is
  missing) and accepts the second.\<close>

definition env_409_prune :: env where
  "env_409_prune =
     env_ok\<lparr>signal_sendMessages := (\<lambda>tr a m t.
       if filter is_sendMessages tr = []
       then Inl (ProtocolError 409
                   \<lparr>extraDevices = Some [Num 3], missingDevices = Some [Num 4],
                      staleDevices = None\<rparr>)
       else Inr ())\<rparr>"

text \<open>The pre-key bundle of device \<open>d\<close> as the server sends it.\<close>

definition device_bundle :: "device_id \<Rightarrow> device" where
  "device_bundle d = \<lparr>deviceId = d, identityKey = None, preKeys = []\<rparr>"

definition one_bundle :: "device_id option \<Rightarrow> keys_response" where
  "one_bundle d =
     \<lparr>resp_identityKey = [7],
      devices = (case d of None \<Rightarrow> [] | Some x \<Rightarrow> [device_bundle x])\<rparr>"

text \<open>
  Scenario 2 of the specification: the devices 1, 2 and 3 are known locally with open
  sessions, the server answers the first send with a 409 that names device 3 as extra
  and accepts the second; the storage lists the devices 1 and 2 once a session has been
  removed.
\<close>

fun is_removeSession :: "event \<Rightarrow> bool" where
  "is_removeSession (Ev_removeSession x r) = True"
| "is_removeSession _ = False"

definition env_extra_device :: env where
  "env_extra_device =
     env_ok\<lparr>getDeviceIds := (\<lambda>tr a.
              if filter is_removeSession tr = []
              then Inr [Str ''1'', Str ''2'', Str ''3''] else Inr [Str ''1'', Str ''2'']),
            signal_sendMessages := (\<lambda>tr a m t.
              if filter is_sendMessages tr = []
              then Inl (ProtocolError 409
                          \<lparr>extraDevices = Some [Num 3], missingDevices = Some [],
                             staleDevices = None\<rparr>)
              else Inr ())\<rparr>"

text \<open>
  Scenario 3 of the specification, in the variant where the second send fails too: the
  devices 1 and 2 are known locally with open sessions and the server answers every send
  with a 410 for device 2.
\<close>

definition env_stale_device :: env where
  "env_stale_device =
     env_ok\<lparr>getDeviceIds := (\<lambda>tr a. Inr [Str ''1'', Str ''2'']),
            signal_getKeysForAddr := (\<lambda>tr a d. Inr (one_bundle d)),
            signal_sendMessages := (\<lambda>tr a m t.
              Inl (ProtocolError 410
                     \<lparr>extraDevices = None, missingDevices = None,
                        staleDevices = Some [Num 2]\<rparr>))\<rparr>"

text \<open>
  Every session build meets a changed identity key. The storage lists device 1 as a
  number (the interface of section 6 of the specification), without an open session.
\<close>

definition env_identity_changed :: env where
  "env_identity_changed =
     env_ok\<lparr>getDeviceIds := (\<lambda>tr a. Inr [Num 1]),
            hasOpenSession := (\<lambda>tr a d. Inr False),
            signal_getKeysForAddr := (\<lambda>tr a d. Inr (one_bundle d)),
            processPreKey := (\<lambda>tr a dev. Inl (Error ''Identity key changed''))\<rparr>"

text \<open>
  The same on the route of the repository's storage: device \<open>"1"\<close> has an open session,
  the server answers the send with a 410 for device 1, and the session build of the
  recovery meets a changed identity key.
\<close>

definition env_identity_changed_410 :: env where
  "env_identity_changed_410 =
     env_ok\<lparr>signal_getKeysForAddr := (\<lambda>tr a d. Inr (one_bundle d)),
            processPreKey := (\<lambda>tr a dev. Inl (Error ''Identity key changed'')),
            signal_sendMessages := (\<lambda>tr a m t.
              Inl (ProtocolError 410
                     \<lparr>extraDevices = None, missingDevices = None,
                        staleDevices = Some [Num 1]\<rparr>))\<rparr>"

text \<open>The session builds for device \<open>d\<close> in a history.\<close>

fun is_processPreKey_for :: "device_id \<Rightarrow> event \<Rightarrow> bool" where
  "is_processPreKey_for d (Ev_processPreKey a dev r) = (deviceId dev = d)"
| "is_processPreKey_for d _ = False"

text \<open>
  The devices \<open>"2"\<close>, \<open>"3"\<close> and \<open>"4"\<close> are known locally with open sessions; the server
  answers the first send with a 410 for the devices 2, 3 and 4 and accepts the second;
  the identity key keeps changing: the first session build for device 2, the second for
  device 3 and the third for device 4 meet a changed identity key, every other build
  succeeds.
\<close>

definition env_identity_flapping :: env where
  "env_identity_flapping =
     env_ok\<lparr>getDeviceIds := (\<lambda>tr a. Inr [Str ''2'', Str ''3'', Str ''4'']),
            signal_getKeysForAddr := (\<lambda>tr a d. Inr (one_bundle d)),
            processPreKey := (\<lambda>tr a dev.
              if (deviceId dev, length (filter (is_processPreKey_for (deviceId dev)) tr))
                   \<in> set [(Num 2, 0), (Num 3, 1), (Num 4, 2)]
              then Inl (Error ''Identity key changed'') else Inr ()),
            signal_sendMessages := (\<lambda>tr a m t.
              if filter is_sendMessages tr = []
              then Inl (ProtocolError 410
                          \<lparr>extraDevices = None, missingDevices = None,
                             staleDevices = Some [Num 2, Num 3, Num 4]\<rparr>)
              else Inr ())\<rparr>"

text \<open>
  The storage lists the primary device as the string \<open>"1"\<close>, without an open session,
  until its session is removed; the server has no pre-key bundle for it.
\<close>

definition env_primary_404 :: env where
  "env_primary_404 =
     env_ok\<lparr>getDeviceIds := (\<lambda>tr a.
              if filter is_removeSession tr = [] then Inr [Str ''1''] else Inr []),
            hasOpenSession := (\<lambda>tr a d. Inr False),
            signal_getKeysForAddr := (\<lambda>tr a d. Inl (ProtocolError 404 no_devices))\<rparr>"

text \<open>
  The server loses the pre-key bundle of device 1 between two fetches: it answers 404 for
  device 1 once a \<open>keychange\<close> has been emitted. The first session build for device 2
  meets a changed identity key.
\<close>

definition env_primary_404_in_retry :: env where
  "env_primary_404_in_retry =
     env_ok\<lparr>signal_getKeysForAddr := (\<lambda>tr a d.
              if d = Some (Num 1) \<and> filter is_keychange tr \<noteq> []
              then Inl (ProtocolError 404 no_devices) else Inr (one_bundle d)),
            processPreKey := (\<lambda>tr a dev.
              if deviceId dev = Num 2 \<and> filter is_keychange tr = []
              then Inl (Error ''Identity key changed'') else Inr ())\<rparr>"

text \<open>A \<open>keychange\<close> callback that accepts the new key.\<close>

definition accept_keychange :: handler where
  "accept_keychange tr p acc = True"

section \<open>Padding\<close>

lemma ceil_div_160:
  "(if (x::nat) mod 160 \<noteq> 0 then x div 160 + 1 else x div 160) = (x + 159) div 160"
proof -
  define q where "q = x div 160"
  define r where "r = x mod 160"
  have x: "x = 160 * q + r" and r: "r < 160"
    by (simp_all add: q_def r_def)
  show ?thesis
  proof (cases "r = 0")
    case True
    have "(x + 159) div 160 = q"
      by (rule div_nat_eqI) (simp_all add: x True)
    with True show ?thesis by (simp add: q_def[symmetric] r_def[symmetric])
  next
    case False
    have "(x + 159) div 160 = Suc q"
      by (rule div_nat_eqI) (use r False in \<open>simp_all add: x\<close>)
    with False show ?thesis by (simp add: q_def[symmetric] r_def[symmetric])
  qed
qed

lemma getPaddedMessageLength_eq: "getPaddedMessageLength n = ((n + 160) div 160) * 160"
proof -
  have "getPaddedMessageLength n =
        (if (n + 1) mod 160 \<noteq> 0 then (n + 1) div 160 + 1 else (n + 1) div 160) * 160"
    by (simp only: getPaddedMessageLength_def Let_def)
  also have "\<dots> = ((n + 1 + 159) div 160) * 160"
    by (simp only: ceil_div_160)
  finally show ?thesis by simp
qed

lemma minLen_eq: "getPaddedMessageLength (n + 1) - 1 = code_paddedLen n"
  by (simp add: getPaddedMessageLength_eq code_paddedLen_def)

lemma code_paddedLen_gt: "n < code_paddedLen n"
proof -
  define q where "q = (n + 161) div 160"
  define r where "r = (n + 161) mod 160"
  have "n + 161 = 160 * q + r" and "r < 160"
    by (simp_all add: q_def r_def)
  then have "n < q * 160 - 1" by linarith
  then show ?thesis by (simp add: code_paddedLen_def q_def)
qed

lemma code_paddedLen_mod: "code_paddedLen n mod 160 = 159"
proof -
  have "160 \<le> n + 2 + 159" by simp
  then have "1 \<le> (n + 2 + 159) div 160"
    by (simp add: div_greater_zero_iff Suc_le_eq)
  then obtain j where j: "(n + 2 + 159) div 160 = Suc j"
    by (cases "(n + 2 + 159) div 160") auto
  show ?thesis unfolding code_paddedLen_def j by simp
qed

lemma paddedBuf_of_eq:
  "paddedBuf_of m = Inr (m @ 0x80 # replicate (code_paddedLen (length m) - Suc (length m)) 0)"
proof -
  obtain k where k: "code_paddedLen (length m) = Suc (length m + k)"
    using code_paddedLen_gt[of "length m"] less_iff_Suc_add by auto
  have len: "getPaddedMessageLength (length m + 1) - 1 = Suc (length m + k)"
    using k by (simp only: minLen_eq)
  have d: "drop (length m) (replicate (Suc (length m + k)) (0::byte)) = replicate (Suc k) 0"
    by (simp del: replicate.simps)
  have "paddedBuf_of m = Inr ((m @ replicate (Suc k) 0)[length m := 0x80])"
    unfolding paddedBuf_of_def Let_def len Buffer_new_def Buffer_set_def d by simp
  then show ?thesis
    by (simp add: k list_update_append)
qed

lemma paddedBuf_of_length:
  "map_sum id length (paddedBuf_of m) = Inr (code_paddedLen (length m))"
  using code_paddedLen_gt[of "length m"] by (simp add: paddedBuf_of_eq)

text \<open>
  C2, as amended. For every plaintext \<open>m\<close> the padded buffer is \<open>m\<close>, then the byte
  \<open>0x80\<close> at index \<open>|m|\<close>, then zeros, and its length is
  \<open>ceil((|m| + 2) / 160) * 160 - 1\<close>: the program passes \<open>|m| + 1\<close> to
  \<open>getPaddedMessageLength\<close>, which adds one for the terminator again.
\<close>

theorem padded_layout:
  "paddedBuf_of m = Inr (m @ 0x80 # replicate (code_paddedLen (length m) - Suc (length m)) 0)
   \<and> length (m @ 0x80 # replicate (code_paddedLen (length m) - Suc (length m)) (0::byte))
       = code_paddedLen (length m)"
  using code_paddedLen_gt[of "length m"] by (simp add: paddedBuf_of_eq)

text \<open>
  C2 as the specification states it fails for a plaintext of 159 bytes: its formula gives
  a buffer of 159 bytes, which has no room for the terminator, and the program allocates
  319.
\<close>

theorem padded_length_counterexample:
  "map_sum id length (paddedBuf_of (replicate 159 0)) = Inr 319
   \<and> map_sum id length (paddedBuf_of (replicate 159 0)) \<noteq> Inr (spec_paddedLen 159)"
proof -
  have "map_sum id length (paddedBuf_of (replicate 159 0)) = Inr (code_paddedLen 159)"
    by (simp only: paddedBuf_of_length length_replicate)
  moreover have "code_paddedLen 159 = 319" by (simp add: code_paddedLen_def)
  moreover have "spec_paddedLen 159 = 159" by (simp add: spec_paddedLen_def)
  ultimately show ?thesis by simp
qed

text \<open>
  C3. For every plaintext \<open>m\<close> the padded buffer \<open>p\<close> exists, \<open>|p| mod 160 = 159\<close>,
  \<open>p[|m|] = 0x80\<close>, and \<open>p[k] = 0\<close> for every \<open>k\<close> with \<open>|m| < k < |p|\<close>.
\<close>

theorem padded_shape:
  "\<exists>p. paddedBuf_of m = Inr p \<and> length p mod 160 = 159 \<and> p ! length m = 0x80
       \<and> (\<forall>k. length m < k \<and> k < length p \<longrightarrow> p ! k = 0)"
proof -
  let ?p = "m @ 0x80 # replicate (code_paddedLen (length m) - Suc (length m)) (0::byte)"
  have len: "length ?p = code_paddedLen (length m)"
    using code_paddedLen_gt[of "length m"] by simp
  have z: "\<forall>k. length m < k \<and> k < length ?p \<longrightarrow> ?p ! k = 0"
    by (auto simp: nth_append nth_Cons split: nat.splits)
  have m: "length ?p mod 160 = 159"
    unfolding len by (rule code_paddedLen_mod)
  have t: "?p ! length m = 0x80" by simp
  show ?thesis
    using paddedBuf_of_eq[of m] m t z by blast
qed

theorem padded_shape_witness:
  "\<exists>p. paddedBuf_of [1, 2, 3] = Inr p \<and> length p = 159
       \<and> (3 < (4::nat) \<and> 4 < length p) \<and> p ! 4 = 0"
proof -
  obtain p where p: "paddedBuf_of [1, 2, 3] = Inr p"
    and z: "\<forall>k. length [1, 2, 3 :: byte] < k \<and> k < length p \<longrightarrow> p ! k = 0"
    using padded_shape[of "[1, 2, 3]"] by blast
  have len: "length p = 159"
    using paddedBuf_of_length[of "[1, 2, 3]"] by (simp add: p code_paddedLen_def)
  with z have "p ! 4 = 0" by simp
  with p len show ?thesis by simp
qed

section \<open>What a call keeps and what it adds to the history\<close>

lemma text_of_small_numbers:
  "string_of_nat 1 = ''1''" "string_of_nat 2 = ''2''" "string_of_nat 3 = ''3''"
  "string_of_nat 4 = ''4''" "string_of_nat (Suc 0) = ''1''"
  by (simp_all add: string_of_nat.simps string_of_digit_def)

lemma log_simps [simp]:
  "trace (log ev s) = trace s @ [ev]" "timestamp (log ev s) = timestamp s"
  "message (log ev s) = message s" "sent (log ev s) = sent s"
  "errors (log ev s) = errors s" "listeners (log ev s) = listeners s"
  by (simp_all add: log_def)

lemma emit_simps [simp]:
  "trace (snd (emit ev p acc s)) = trace s @ [Ev_emit ev p]"
  "timestamp (snd (emit ev p acc s)) = timestamp s"
  "message (snd (emit ev p acc s)) = message s"
  "sent (snd (emit ev p acc s)) = sent s"
  "errors (snd (emit ev p acc s)) = errors s"
  "listeners (snd (emit ev p acc s)) = listeners s"
  by (simp_all add: emit_def Let_def split: option.splits)

lemma extendsI:
  assumes "trace s' = trace s @ tr" "list_all P tr"
    "timestamp s' = timestamp s" "message s' = message s" "listeners s' = listeners s"
  shows "extends P s s'"
  using assms by (simp add: extends_def new_events_def)

lemma extendsD:
  assumes "extends P s s'"
  shows "\<exists>tr. trace s' = trace s @ tr \<and> list_all P tr"
    "timestamp s' = timestamp s" "message s' = message s" "listeners s' = listeners s"
  using assms unfolding extends_def by blast+

lemma extends_refl [simp]: "extends P s s"
  by (rule extendsI[where tr="[]"]) simp_all

lemma extends_trans: "extends P s s1 \<Longrightarrow> extends P s1 s2 \<Longrightarrow> extends P s s2"
proof -
  assume a: "extends P s s1" and b: "extends P s1 s2"
  from extendsD(1)[OF a] obtain t1 where t1: "trace s1 = trace s @ t1" "list_all P t1" by blast
  from extendsD(1)[OF b] obtain t2 where t2: "trace s2 = trace s1 @ t2" "list_all P t2" by blast
  show ?thesis
    by (rule extendsI[where tr="t1 @ t2"])
       (use t1 t2 extendsD(2-4)[OF a] extendsD(2-4)[OF b] in simp_all)
qed

lemma extends_mono: "extends P s s' \<Longrightarrow> (\<And>ev. P ev \<Longrightarrow> Q ev) \<Longrightarrow> extends Q s s'"
  unfolding extends_def by (auto simp: list_all_iff)

lemma quiet_refl [simp]: "quiet P s s"
  by (simp add: quiet_def)

lemma quiet_trans: "quiet P s s1 \<Longrightarrow> quiet P s1 s2 \<Longrightarrow> quiet P s s2"
  unfolding quiet_def using extends_trans by fastforce

lemma quiet_log: "P ev \<Longrightarrow> quiet P s (log ev s)"
  unfolding quiet_def by (auto intro!: extendsI[where tr="[ev]"])

lemma quiet_emit: "P (Ev_emit ev p) \<Longrightarrow> quiet P s (snd (emit ev p acc s))"
  unfolding quiet_def by (auto intro!: extendsI[where tr="[Ev_emit ev p]"])

lemma quiet_emit': "emit ev p acc s = (b, s') \<Longrightarrow> P (Ev_emit ev p) \<Longrightarrow> quiet P s s'"
  using quiet_emit[of P ev p s acc] by simp

lemma quiet_processPreKey:
  "builder_processPreKey env a dev s = (r, s') \<Longrightarrow> P (Ev_processPreKey a dev r) \<Longrightarrow> quiet P s s'"
  by (auto simp: builder_processPreKey_def Let_def intro: quiet_log)

lemma quiet_signal_getKeys:
  "signal_getKeys env a d s = (r, s') \<Longrightarrow> P (Ev_getKeysForAddr a d r) \<Longrightarrow> quiet P s s'"
  by (auto simp: signal_getKeys_def Let_def intro: quiet_log)

lemma quiet_removeSession:
  "storage_removeSession env x s = (r, s') \<Longrightarrow> P (Ev_removeSession x r) \<Longrightarrow> quiet P s s'"
  by (auto simp: storage_removeSession_def Let_def intro: quiet_log)

lemma quiet_removeDeviceIdsForAddr:
  "removeDeviceIdsForAddr env a ds s = (r, s') \<Longrightarrow> (\<And>x r. P (Ev_removeSession x r)) \<Longrightarrow> quiet P s s'"
proof (induction ds arbitrary: s)
  case Nil
  then show ?case by simp
next
  case (Cons d ds)
  obtain r1 s1 where c: "storage_removeSession env (encodedAddr a d) s = (r1, s1)"
    by (cases "storage_removeSession env (encodedAddr a d) s")
  have q1: "quiet P s s1" using c Cons.prems(2) by (rule quiet_removeSession)
  show ?case
  proof (cases r1)
    case (Inl e)
    with Cons.prems(1) c have "s' = s1" by simp
    with q1 show ?thesis by simp
  next
    case (Inr u)
    with Cons.prems(1) c have "removeDeviceIdsForAddr env a ds s1 = (r, s')" by simp
    then have "quiet P s1 s'" using Cons.prems(2) by (rule Cons.IH)
    with q1 show ?thesis by (rule quiet_trans)
  qed
qed

lemma getKeys_quiet:
  fixes P :: "event \<Rightarrow> bool"
  assumes pk: "\<And>a dev r. P (Ev_processPreKey a dev r)"
      and rm: "\<And>x r. P (Ev_removeSession x r)"
  shows "(\<forall>d r. (case u of None \<Rightarrow> d = None | Some ds \<Rightarrow> d \<in> Some ` set ds) \<longrightarrow> P (Ev_getKeysForAddr a d r))
           \<longrightarrow> (\<not> reentrant \<longrightarrow> (\<forall>p. P (Ev_emit ''keychange'' p)))
           \<longrightarrow> quiet P s (snd (handleResult_job env a u reentrant response dev s))"
    and "(\<forall>d r. (case u of None \<Rightarrow> d = None | Some ds \<Rightarrow> d \<in> Some ` set ds) \<longrightarrow> P (Ev_getKeysForAddr a d r))
           \<longrightarrow> (\<not> reentrant \<longrightarrow> (\<forall>p. P (Ev_emit ''keychange'' p)))
           \<longrightarrow> quiet P s (snd (handleResult_jobs env a u reentrant response devs s))"
    and "(\<forall>d r. (case u of None \<Rightarrow> d = None | Some ds \<Rightarrow> d \<in> Some ` set ds) \<longrightarrow> P (Ev_getKeysForAddr a d r))
           \<longrightarrow> (\<forall>d\<in>set rest. \<forall>r. P (Ev_getKeysForAddr a (Some d) r))
           \<longrightarrow> (\<not> reentrant \<longrightarrow> (\<forall>p. P (Ev_emit ''keychange'' p)))
           \<longrightarrow> quiet P s (snd (getKeysForAddr_loop env a u reentrant rest s))"
    and "(\<forall>d r. (case u of None \<Rightarrow> d = None | Some ds \<Rightarrow> d \<in> Some ` set ds) \<longrightarrow> P (Ev_getKeysForAddr a d r))
           \<longrightarrow> (\<not> reentrant \<longrightarrow> (\<forall>p. P (Ev_emit ''keychange'' p)))
           \<longrightarrow> quiet P s (snd (getKeysForAddr env a u reentrant s))"
proof (induct env a u reentrant response dev s and env a u reentrant response devs s
          and env a u reentrant rest s and env a u reentrant s
       rule: handleResult_job_handleResult_jobs_getKeysForAddr_loop_getKeysForAddr.induct)
  case (1 env a updateDevices reentrant response dev s)
  show ?case
  proof (intro impI)
    assume f: "\<forall>d r. (case updateDevices of None \<Rightarrow> d = None | Some ds \<Rightarrow> d \<in> Some ` set ds)
                  \<longrightarrow> P (Ev_getKeysForAddr a d r)"
       and k: "\<not> reentrant \<longrightarrow> (\<forall>p. P (Ev_emit ''keychange'' p))"
    let ?dev = "dev\<lparr>identityKey := Some (resp_identityKey response)\<rparr>"
    show "quiet P s (snd (handleResult_job env a updateDevices reentrant response dev s))"
    proof (cases "case updateDevices of None \<Rightarrow> True | Some ds \<Rightarrow> deviceId ?dev \<in> set ds")
      case False
      then show ?thesis by (simp add: Let_def)
    next
      case sel: True
      obtain r1 s1 where c: "builder_processPreKey env a ?dev s = (r1, s1)"
        by (cases "builder_processPreKey env a ?dev s")
      have q1: "quiet P s s1" using c pk by (rule quiet_processPreKey)
      show ?thesis
      proof (cases r1)
        case (Inr u)
        with sel c q1 show ?thesis by (simp add: Let_def)
      next
        case (Inl e)
        show ?thesis
        proof (cases "error_message e = Some ''Identity key changed''")
          case False
          with sel c q1 Inl show ?thesis by (simp add: Let_def)
        next
          case idc: True
          show ?thesis
          proof (cases reentrant)
            case True
            with sel c q1 Inl idc show ?thesis by (simp add: Let_def)
          next
            case nr: False
            let ?ke = "OutgoingIdentityKeyError a (message s1) (timestamp s1)
                         (resp_identityKey response) False"
            obtain acc s2 where e: "emit ''keychange'' (KeyChange_payload ?ke) False s1 = (acc, s2)"
              by (cases "emit ''keychange'' (KeyChange_payload ?ke) False s1")
            have q2: "quiet P s1 s2" using e k nr by (auto intro: quiet_emit')
            have q12: "quiet P s s2" using q1 q2 by (rule quiet_trans)
            show ?thesis
            proof (cases acc)
              case False
              with sel c Inl idc nr e q12 show ?thesis by (simp add: Let_def)
            next
              case True
              have "quiet P s2 (snd (getKeysForAddr env a updateDevices True s2))"
                using "1.hyps"[OF refl sel c[symmetric] Inl idc refl nr e[symmetric]] True f
                by simp
              with q12 have "quiet P s (snd (getKeysForAddr env a updateDevices True s2))"
                by (rule quiet_trans)
              with sel c Inl idc nr e True show ?thesis by (simp add: Let_def)
            qed
          qed
        qed
      qed
    qed
  qed
next
  case (2 env a updateDevices reentrant response s)
  show ?case by simp
next
  case (3 env a updateDevices reentrant response x xs s)
  show ?case
  proof (intro impI)
    assume f: "\<forall>d r. (case updateDevices of None \<Rightarrow> d = None | Some ds \<Rightarrow> d \<in> Some ` set ds)
                  \<longrightarrow> P (Ev_getKeysForAddr a d r)"
       and k: "\<not> reentrant \<longrightarrow> (\<forall>p. P (Ev_emit ''keychange'' p))"
    obtain r1 s1 where c: "handleResult_job env a updateDevices reentrant response x s = (r1, s1)"
      by (cases "handleResult_job env a updateDevices reentrant response x s")
    have q1: "quiet P s s1" using "3.hyps"(1) f k c by simp
    show "quiet P s (snd (handleResult_jobs env a updateDevices reentrant response (x # xs) s))"
    proof (cases r1)
      case (Inl e)
      with c q1 show ?thesis by simp
    next
      case (Inr b)
      have "quiet P s1 (snd (handleResult_jobs env a updateDevices reentrant response xs s1))"
        using "3.hyps"(2)[OF c[symmetric] Inr] f k by simp
      with q1 have "quiet P s (snd (handleResult_jobs env a updateDevices reentrant response xs s1))"
        by (rule quiet_trans)
      with c Inr show ?thesis by simp
    qed
  qed
next
  case (4 env a updateDevices reentrant s)
  show ?case by simp
next
  case (5 env a updateDevices reentrant dev rest s)
  show ?case
  proof (intro impI)
    assume f: "\<forall>d r. (case updateDevices of None \<Rightarrow> d = None | Some ds \<Rightarrow> d \<in> Some ` set ds)
                  \<longrightarrow> P (Ev_getKeysForAddr a d r)"
       and fr: "\<forall>d\<in>set (dev # rest). \<forall>r. P (Ev_getKeysForAddr a (Some d) r)"
       and k: "\<not> reentrant \<longrightarrow> (\<forall>p. P (Ev_emit ''keychange'' p))"
    let ?fetch = "case signal_getKeys env a (Some dev) s of
                    (Inl e, s1) \<Rightarrow> (Inl e, s1)
                  | (Inr response, s1) \<Rightarrow>
                      handleResult_jobs env a updateDevices reentrant response (devices response) s1"
    obtain r1 s1 where c: "signal_getKeys env a (Some dev) s = (r1, s1)"
      by (cases "signal_getKeys env a (Some dev) s")
    have q1: "quiet P s s1" using c fr by (auto intro: quiet_signal_getKeys)
    obtain r2 s2 where c2: "?fetch = (r2, s2)" by (cases ?fetch)
    have q2: "quiet P s s2"
    proof (cases r1)
      case (Inl e)
      with c c2 q1 show ?thesis by auto
    next
      case (Inr resp)
      have "quiet P s1 (snd (handleResult_jobs env a updateDevices reentrant resp (devices resp) s1))"
        using "5.hyps"(1)[OF c[symmetric] Inr] f k by simp
      with q1 have "quiet P s (snd (handleResult_jobs env a updateDevices reentrant resp (devices resp) s1))"
        by (rule quiet_trans)
      with c c2 Inr show ?thesis by simp
    qed
    from fr have fr': "\<forall>d\<in>set rest. \<forall>r. P (Ev_getKeysForAddr a (Some d) r)" by simp
    show "quiet P s (snd (getKeysForAddr_loop env a updateDevices reentrant (dev # rest) s))"
    proof (cases r2)
      case (Inr b)
      have "quiet P s2 (snd (getKeysForAddr_loop env a updateDevices reentrant rest s2))"
        using "5.hyps"(3)[OF c2[symmetric] Inr] f fr' k by simp
      with q2 have "quiet P s (snd (getKeysForAddr_loop env a updateDevices reentrant rest s2))"
        by (rule quiet_trans)
      with c2 Inr show ?thesis by simp
    next
      case (Inl e)
      show ?thesis
      proof (cases "is_ProtocolError e \<and> code e = Some 404 \<and> dev \<noteq> Num 1")
        case False
        with c2 Inl q2 show ?thesis by auto
      next
        case True
        obtain r3 s3 where c3: "removeDeviceIdsForAddr env a [dev] s2 = (r3, s3)"
          by (cases "removeDeviceIdsForAddr env a [dev] s2")
        have q3: "quiet P s2 s3" using c3 rm by (rule quiet_removeDeviceIdsForAddr)
        have q23: "quiet P s s3" using q2 q3 by (rule quiet_trans)
        show ?thesis
        proof (cases r3)
          case l3: (Inl e')
          with c2 Inl True c3 q23 show ?thesis by (simp del: removeDeviceIdsForAddr.simps)
        next
          case r3': (Inr b)
          have "quiet P s3 (snd (getKeysForAddr_loop env a updateDevices reentrant rest s3))"
            using "5.hyps"(2)[OF c2[symmetric] Inl True c3[symmetric] r3'] f fr' k by simp
          with q23 have "quiet P s (snd (getKeysForAddr_loop env a updateDevices reentrant rest s3))"
            by (rule quiet_trans)
          with c2 Inl True c3 r3' show ?thesis by (simp del: removeDeviceIdsForAddr.simps)
        qed
      qed
    qed
  qed
next
  case (6 env a updateDevices reentrant s)
  show ?case
  proof (intro impI)
    assume f: "\<forall>d r. (case updateDevices of None \<Rightarrow> d = None | Some ds \<Rightarrow> d \<in> Some ` set ds)
                  \<longrightarrow> P (Ev_getKeysForAddr a d r)"
       and k: "\<not> reentrant \<longrightarrow> (\<forall>p. P (Ev_emit ''keychange'' p))"
    show "quiet P s (snd (getKeysForAddr env a updateDevices reentrant s))"
    proof (cases updateDevices)
      case None
      obtain r1 s1 where c: "signal_getKeys env a None s = (r1, s1)"
        by (cases "signal_getKeys env a None s")
      have q1: "quiet P s s1" using c f None by (auto intro: quiet_signal_getKeys)
      show ?thesis
      proof (cases r1)
        case (Inl e)
        with None c q1 show ?thesis by simp
      next
        case (Inr resp)
        have "quiet P s1 (snd (handleResult_jobs env a updateDevices reentrant resp (devices resp) s1))"
          using "6.hyps"(1)[OF None c[symmetric] Inr] f k by simp
        with q1 have "quiet P s (snd (handleResult_jobs env a updateDevices reentrant resp (devices resp) s1))"
          by (rule quiet_trans)
        with None c Inr show ?thesis by simp
      qed
    next
      case (Some ds)
      have "\<forall>d\<in>set ds. \<forall>r. P (Ev_getKeysForAddr a (Some d) r)"
        using f Some by simp
      then show ?thesis
        using "6.hyps"(2)[OF Some] f k Some by simp
    qed
  qed
qed

lemma quiet_extends: "quiet P s s' \<Longrightarrow> extends P s s'"
  by (simp add: quiet_def)

lemma quiet_getDeviceIds:
  "storage_getDeviceIds env a s = (r, s') \<Longrightarrow> P (Ev_getDeviceIds a r) \<Longrightarrow> quiet P s s'"
  by (auto simp: storage_getDeviceIds_def Let_def intro: quiet_log)

lemma quiet_hasOpenSession:
  "cipher_hasOpenSession env a d s = (r, s') \<Longrightarrow> P (Ev_hasOpenSession a d r) \<Longrightarrow> quiet P s s'"
  by (auto simp: cipher_hasOpenSession_def Let_def intro: quiet_log)

lemma quiet_signal_send:
  "signal_send env a m t s = (r, s') \<Longrightarrow> P (Ev_sendMessages a m t r) \<Longrightarrow> quiet P s s'"
  by (auto simp: signal_send_def Let_def intro: quiet_log)

lemma quiet_transmitMessage:
  assumes "transmitMessage env a m t s = (r, s')" "\<And>r. P (Ev_sendMessages a m t r)"
  shows "quiet P s s'"
proof -
  obtain r1 s1 where c: "signal_send env a m t s = (r1, s1)"
    by (cases "signal_send env a m t s")
  have "quiet P s s1" using c assms(2) by (rule quiet_signal_send)
  moreover have "s' = s1"
    using assms(1) c by (auto simp: transmitMessage_def split: sum.splits if_splits)
  ultimately show ?thesis by simp
qed

lemma quiet_encryptToDevice:
  "encryptToDevice env ad b s = (r, s') \<Longrightarrow> (\<And>a d b r. P (Ev_encrypt a d b r)) \<Longrightarrow> quiet P s s'"
  by (auto simp: encryptToDevice_def Let_def split: sum.splits intro: quiet_log)

lemma quiet_encryptAll:
  "encryptAll env a b ds cs s = (cs', rs, s') \<Longrightarrow> (\<And>a d b r. P (Ev_encrypt a d b r)) \<Longrightarrow> quiet P s s'"
proof (induction ds arbitrary: cs s cs' rs s')
  case Nil
  then show ?case by simp
next
  case (Cons d ds)
  obtain r1 s1 where c: "encryptToDevice env (a, d) b s = (r1, s1)"
    by (cases "encryptToDevice env (a, d) b s")
  have q1: "quiet P s s1" using c Cons.prems(2) by (rule quiet_encryptToDevice)
  obtain cs2 rs2 s2 where
    c2: "encryptAll env a b ds (cs(id_text d \<mapsto> (a, d))) s1 = (cs2, rs2, s2)"
    by (cases "encryptAll env a b ds (cs(id_text d \<mapsto> (a, d))) s1")
  have "quiet P s1 s2" by (rule Cons.IH[OF c2 Cons.prems(2)])
  moreover have "s' = s2" using Cons.prems(1) c c2 by (simp add: Let_def)
  ultimately show ?case using q1 quiet_trans by blast
qed

lemma quiet_closeStale:
  "closeStale env cs ds s = (r, s') \<Longrightarrow> (\<And>a d r. P (Ev_closeOpenSessionForDevice a d r))
     \<Longrightarrow> quiet P s s'"
proof (induction ds arbitrary: s r s')
  case Nil
  then show ?case by simp
next
  case (Cons x xs)
  show ?case
  proof (cases "cs (id_text x)")
    case None
    with Cons.prems(1) show ?thesis by simp
  next
    case (Some ad)
    let ?r = "closeOpenSessionForDevice env (trace s) (fst ad) (snd ad)"
    let ?s1 = "log (Ev_closeOpenSessionForDevice (fst ad) (snd ad) ?r) s"
    have q1: "quiet P s ?s1" using Cons.prems(2) by (rule quiet_log)
    obtain r2 s2 where c2: "closeStale env cs xs ?s1 = (r2, s2)"
      by (cases "closeStale env cs xs ?s1")
    have "quiet P ?s1 s2" by (rule Cons.IH[OF c2 Cons.prems(2)])
    moreover have "s' = s2"
      using Cons.prems(1) Some c2 by (auto simp: Let_def split: sum.splits)
    ultimately show ?thesis using q1 quiet_trans by blast
  qed
qed

lemma extends_emitError:
  "(\<And>p. P (Ev_emit ''error'' p)) \<Longrightarrow> extends P s (emitError env a reason e s)"
  unfolding emitError_def Let_def
  by (rule extendsI[where tr="[Ev_emit ''error'' p]" for p]) simp_all

lemma extends_emitSent:
  "(\<And>p. P (Ev_emit ''sent'' p)) \<Longrightarrow> extends P s (emitSent env a s)"
  unfolding emitSent_def Let_def
  by (rule extendsI[where tr="[Ev_emit ''sent'' p]" for p]) simp_all

lemma getKeysForAddr_quiet_other:
  assumes "\<And>ev. \<not> is_sendMessages ev \<Longrightarrow> P ev"
  shows "quiet P s (snd (getKeysForAddr env a u reentrant s))"
  using getKeys_quiet(4)[of P u a reentrant s env] assms by simp

lemma quiet_reconcile:
  assumes r: "reconcile env a cs e s = (r, s')"
      and other: "\<And>ev. \<not> is_sendMessages ev \<Longrightarrow> P ev"
  shows "quiet P s s'"
proof (cases "response_of e")
  case None
  with r show ?thesis by (simp add: reconcile_def)
next
  case (Some resp)
  let ?first = "if code e = Some 409
                 then (case extraDevices resp of
                         None \<Rightarrow> (Inl (TypeError ''undefined is not iterable''), s)
                       | Some ds \<Rightarrow> removeDeviceIdsForAddr env a ds s)
                 else (case staleDevices resp of
                         None \<Rightarrow> (Inl (TypeError ''Cannot read property map of undefined''), s)
                       | Some ds \<Rightarrow>
                           (case closeStale env cs ds s of
                              (Inl e', s1) \<Rightarrow> (Inl e', s1)
                            | (Inr rs, s1) \<Rightarrow>
                                (case Promise_all rs of
                                   Inl e' \<Rightarrow> (Inl e', s1)
                                 | Inr us \<Rightarrow> (Inr (), s1))))"
  obtain r1 s1 where c: "?first = (r1, s1)" by (cases ?first)
  have q1: "quiet P s s1"
  proof (cases "code e = Some 409")
    case True
    show ?thesis
    proof (cases "extraDevices resp")
      case None
      with c True show ?thesis by simp
    next
      case (Some ds)
      with c True have "removeDeviceIdsForAddr env a ds s = (r1, s1)" by simp
      then show ?thesis by (rule quiet_removeDeviceIdsForAddr) (simp add: other)
    qed
  next
    case False
    show ?thesis
    proof (cases "staleDevices resp")
      case None
      with c False show ?thesis by simp
    next
      case (Some ds)
      obtain r2 s2 where c2: "closeStale env cs ds s = (r2, s2)"
        by (cases "closeStale env cs ds s")
      have "quiet P s s2" using c2 by (rule quiet_closeStale) (simp add: other)
      moreover have "s1 = s2" using c False Some c2 by (auto split: sum.splits)
      ultimately show ?thesis by simp
    qed
  qed
  show ?thesis
  proof (cases r1)
    case (Inl e')
    with r Some c have "s' = s1" by (simp add: reconcile_def)
    with q1 show ?thesis by simp
  next
    case (Inr u)
    let ?reset = "if code e = Some 410 then staleDevices resp else missingDevices resp"
    have "s' = snd (getKeysForAddr env a ?reset False s1)"
      using r Some c Inr by (simp add: reconcile_def Let_def)
    moreover have "quiet P s1 (snd (getKeysForAddr env a ?reset False s1))"
      using other by (rule getKeysForAddr_quiet_other)
    ultimately show ?thesis using q1 quiet_trans by blast
  qed
qed

text \<open>The ways through one call of \<open>doSendMessage\<close> that has a bound to spend.\<close>

lemma doSendMessage_Suc_cases:
  obtains
    (encrypt_failed) pb cs rs s1 e where
      "paddedBuf_of (Content_encode env (message s)) = Inr pb"
      "encryptAll env a pb ids (\<lambda>d. None) s = (cs, rs, s1)"
      "Promise_all rs = Inl e"
      "doSendMessage env (Suc n) a ids recurse s
         = (Some (Inr ()), emitError env a ''Failed to create message'' (Some e) s1)"
  | (accepted) pb cs rs s1 messages u s2 where
      "paddedBuf_of (Content_encode env (message s)) = Inr pb"
      "encryptAll env a pb ids (\<lambda>d. None) s = (cs, rs, s1)"
      "Promise_all rs = Inr messages"
      "transmitMessage env a messages (timestamp s1) s1 = (Inr u, s2)"
      "doSendMessage env (Suc n) a ids recurse s = (Some (Inr ()), emitSent env a s2)"
  | (retry_limit) pb cs rs s1 messages e s2 where
      "paddedBuf_of (Content_encode env (message s)) = Inr pb"
      "encryptAll env a pb ids (\<lambda>d. None) s = (cs, rs, s1)"
      "Promise_all rs = Inr messages"
      "transmitMessage env a messages (timestamp s1) s1 = (Inl e, s2)"
      "is_ProtocolError e" "code e = Some 410 \<or> code e = Some 409" "\<not> recurse"
      "doSendMessage env (Suc n) a ids recurse s
         = (Some (Inr ()), emitError env a ''Hit retry limit attempting to reload device list''
                             (Some e) s2)"
  | (reconcile_failed) pb cs rs s1 messages e s2 e' s3 where
      "paddedBuf_of (Content_encode env (message s)) = Inr pb"
      "encryptAll env a pb ids (\<lambda>d. None) s = (cs, rs, s1)"
      "Promise_all rs = Inr messages"
      "transmitMessage env a messages (timestamp s1) s1 = (Inl e, s2)"
      "is_ProtocolError e" "code e = Some 410 \<or> code e = Some 409" "recurse"
      "reconcile env a cs e s2 = (Inl e', s3)"
      "doSendMessage env (Suc n) a ids recurse s = (Some (Inl e'), s3)"
  | (retry) pb cs rs s1 messages e s2 u s3 r4 s4 where
      "paddedBuf_of (Content_encode env (message s)) = Inr pb"
      "encryptAll env a pb ids (\<lambda>d. None) s = (cs, rs, s1)"
      "Promise_all rs = Inr messages"
      "transmitMessage env a messages (timestamp s1) s1 = (Inl e, s2)"
      "is_ProtocolError e" "code e = Some 410 \<or> code e = Some 409" "recurse"
      "reconcile env a cs e s2 = (Inr u, s3)"
      "reloadDevicesAndSend env n a (code e = Some 409) s3 = (r4, s4)"
      "doSendMessage env (Suc n) a ids recurse s
         = (case r4 of
              None \<Rightarrow> (None, s4)
            | Some (Inl e') \<Rightarrow>
                (Some (Inr ()), emitError env a ''Failed to reload device keys'' (Some e') s4)
            | Some (Inr u) \<Rightarrow> (Some (Inr ()), emitSent env a s4))"
  | (send_failed) pb cs rs s1 messages e s2 where
      "paddedBuf_of (Content_encode env (message s)) = Inr pb"
      "encryptAll env a pb ids (\<lambda>d. None) s = (cs, rs, s1)"
      "Promise_all rs = Inr messages"
      "transmitMessage env a messages (timestamp s1) s1 = (Inl e, s2)"
      "\<not> (is_ProtocolError e \<and> (code e = Some 410 \<or> code e = Some 409))"
      "doSendMessage env (Suc n) a ids recurse s
         = (Some (Inr ()), emitError env a ''Failed to send message'' (Some e) s2)"
proof -
  obtain pb where pb: "paddedBuf_of (Content_encode env (message s)) = Inr pb"
    using paddedBuf_of_eq by blast
  obtain cs rs s1 where enc: "encryptAll env a pb ids (\<lambda>d. None) s = (cs, rs, s1)"
    by (cases "encryptAll env a pb ids (\<lambda>d. None) s")
  show thesis
  proof (cases "Promise_all rs")
    case (Inl e)
    show thesis
      by (rule encrypt_failed[OF pb enc Inl]) (simp add: pb enc Inl)
  next
    case (Inr messages)
    obtain r2 s2 where tx: "transmitMessage env a messages (timestamp s1) s1 = (r2, s2)"
      by (cases "transmitMessage env a messages (timestamp s1) s1")
    show thesis
    proof (cases r2)
      case ok: (Inr u)
      show thesis
        by (rule accepted[OF pb enc Inr tx[unfolded ok]]) (simp add: pb enc Inr tx ok)
    next
      case bad: (Inl e)
      note tx' = tx[unfolded bad]
      show thesis
      proof (cases "is_ProtocolError e \<and> (code e = Some 410 \<or> code e = Some 409)")
        case False
        show thesis
          by (rule send_failed[OF pb enc Inr tx' False]) (use False in \<open>auto simp add: pb enc Inr tx bad\<close>)
      next
        case True
        then have pe: "is_ProtocolError e" and cd: "code e = Some 410 \<or> code e = Some 409"
          by simp_all
        show thesis
        proof (cases recurse)
          case False
          show thesis
            by (rule retry_limit[OF pb enc Inr tx' pe cd False])
               (use True False in \<open>simp add: pb enc Inr tx bad\<close>)
        next
          case rec: True
          obtain r3 s3 where rc: "reconcile env a cs e s2 = (r3, s3)"
            by (cases "reconcile env a cs e s2")
          show thesis
          proof (cases r3)
            case (Inl e')
            show thesis
              by (rule reconcile_failed[OF pb enc \<open>Promise_all rs = Inr messages\<close> tx' pe cd rec
                    rc[unfolded Inl]])
                 (use True rec in \<open>simp add: pb enc \<open>Promise_all rs = Inr messages\<close> tx bad rc Inl\<close>)
          next
            case r3': (Inr u)
            obtain r4 s4 where rl: "reloadDevicesAndSend env n a (code e = Some 409) s3 = (r4, s4)"
              by (cases "reloadDevicesAndSend env n a (code e = Some 409) s3")
            show thesis
              by (rule retry[OF pb enc Inr tx' pe cd rec rc[unfolded r3'] rl])
                 (use True rec in \<open>simp add: pb enc Inr tx bad rc r3' rl del: reloadDevicesAndSend.simps
                                      split: option.splits sum.splits\<close>)
          qed
        qed
      qed
    qed
  qed
qed

lemma quiet_timestamp: "quiet P s s' \<Longrightarrow> timestamp s' = timestamp s"
  by (simp add: quiet_def extends_def)

lemma extends_timestamp: "extends P s s' \<Longrightarrow> timestamp s' = timestamp s"
  by (simp add: extends_def)

lemma reload_extends_step:
  assumes other: "\<And>ev. \<not> is_sendMessages ev \<Longrightarrow> P ev"
      and IH: "\<And>ids s'. timestamp s' = ts \<Longrightarrow> extends P s' (snd (doSendMessage env n a ids recurse s'))"
      and ts: "timestamp s = ts"
  shows "extends P s (snd (reloadDevicesAndSend env n a recurse s))"
proof -
  obtain r1 s1 where c: "storage_getDeviceIds env a s = (r1, s1)"
    by (cases "storage_getDeviceIds env a s")
  have q1: "quiet P s s1" using c by (rule quiet_getDeviceIds) (simp add: other)
  show ?thesis
  proof (cases r1)
    case (Inl e)
    with c q1 show ?thesis by (simp add: quiet_extends)
  next
    case (Inr ids)
    have "timestamp s1 = ts" using quiet_timestamp[OF q1] ts by simp
    then have "extends P s1 (snd (doSendMessage env n a ids recurse s1))" by (rule IH)
    with quiet_extends[OF q1] have "extends P s (snd (doSendMessage env n a ids recurse s1))"
      by (rule extends_trans)
    with c Inr show ?thesis by simp
  qed
qed

lemma doSendMessage_extends:
  assumes other: "\<And>ev. \<not> is_sendMessages ev \<Longrightarrow> P ev"
      and send: "\<And>a m r. P (Ev_sendMessages a m ts r)"
  shows "timestamp s = ts \<Longrightarrow> extends P s (snd (doSendMessage env n a ids recurse s))"
proof (induction n arbitrary: a ids recurse s)
  case 0
  show ?case by simp
next
  case (Suc n)
  note ts = Suc.prems
  have em_err: "\<And>s reason e. extends P s (emitError env a reason e s)"
    by (rule extends_emitError) (simp add: other)
  have em_sent: "\<And>s. extends P s (emitSent env a s)"
    by (rule extends_emitSent) (simp add: other)
  show ?case
  proof (cases rule: doSendMessage_Suc_cases[of env s a ids n recurse])
    case (encrypt_failed pb cs rs s1 e)
    have "quiet P s s1" using encrypt_failed(2) by (rule quiet_encryptAll) (simp add: other)
    then have "extends P s (emitError env a ''Failed to create message'' (Some e) s1)"
      using em_err extends_trans quiet_extends by blast
    with encrypt_failed(4) show ?thesis by simp
  next
    case (accepted pb cs rs s1 messages u s2)
    have q1: "quiet P s s1" using accepted(2) by (rule quiet_encryptAll) (simp add: other)
    have "quiet P s1 s2" using accepted(4)
      by (rule quiet_transmitMessage) (simp add: quiet_timestamp[OF q1] ts send)
    with q1 have "quiet P s s2" by (rule quiet_trans)
    then have "extends P s (emitSent env a s2)"
      using em_sent extends_trans quiet_extends by blast
    with accepted(5) show ?thesis by simp
  next
    case (retry_limit pb cs rs s1 messages e s2)
    have q1: "quiet P s s1" using retry_limit(2) by (rule quiet_encryptAll) (simp add: other)
    have "quiet P s1 s2" using retry_limit(4)
      by (rule quiet_transmitMessage) (simp add: quiet_timestamp[OF q1] ts send)
    with q1 have "quiet P s s2" by (rule quiet_trans)
    then have "extends P s (emitError env a ''Hit retry limit attempting to reload device list''
                               (Some e) s2)"
      using em_err extends_trans quiet_extends by blast
    with retry_limit(8) show ?thesis by simp
  next
    case (reconcile_failed pb cs rs s1 messages e s2 e' s3)
    have q1: "quiet P s s1" using reconcile_failed(2) by (rule quiet_encryptAll) (simp add: other)
    have "quiet P s1 s2" using reconcile_failed(4)
      by (rule quiet_transmitMessage) (simp add: quiet_timestamp[OF q1] ts send)
    with q1 have "quiet P s s2" by (rule quiet_trans)
    moreover have "quiet P s2 s3" using reconcile_failed(8) other by (rule quiet_reconcile)
    ultimately have "quiet P s s3" by (rule quiet_trans)
    with reconcile_failed(9) show ?thesis by (simp add: quiet_extends)
  next
    case (retry pb cs rs s1 messages e s2 u s3 r4 s4)
    have q1: "quiet P s s1" using retry(2) by (rule quiet_encryptAll) (simp add: other)
    have "quiet P s1 s2" using retry(4)
      by (rule quiet_transmitMessage) (simp add: quiet_timestamp[OF q1] ts send)
    with q1 have "quiet P s s2" by (rule quiet_trans)
    moreover have "quiet P s2 s3" using retry(8) other by (rule quiet_reconcile)
    ultimately have q3: "quiet P s s3" by (rule quiet_trans)
    have ts3: "timestamp s3 = ts" using quiet_timestamp[OF q3] ts by simp
    have "extends P s3 (snd (reloadDevicesAndSend env n a (code e = Some 409) s3))"
      using other Suc.IH ts3 by (rule reload_extends_step)
    then have "extends P s3 s4" using retry(9) by simp
    with quiet_extends[OF q3] have e4: "extends P s s4" by (rule extends_trans)
    show ?thesis
    proof (cases r4)
      case None
      with retry(10) e4 show ?thesis by simp
    next
      case (Some x)
      show ?thesis
      proof (cases x)
        case (Inl e')
        have "extends P s (emitError env a ''Failed to reload device keys'' (Some e') s4)"
          using e4 em_err by (rule extends_trans)
        with retry(10) Some Inl show ?thesis by simp
      next
        case (Inr u')
        have "extends P s (emitSent env a s4)"
          using e4 em_sent by (rule extends_trans)
        with retry(10) Some Inr show ?thesis by simp
      qed
    qed
  next
    case (send_failed pb cs rs s1 messages e s2)
    have q1: "quiet P s s1" using send_failed(2) by (rule quiet_encryptAll) (simp add: other)
    have "quiet P s1 s2" using send_failed(4)
      by (rule quiet_transmitMessage) (simp add: quiet_timestamp[OF q1] ts send)
    with q1 have "quiet P s s2" by (rule quiet_trans)
    then have "extends P s (emitError env a ''Failed to send message'' (Some e) s2)"
      using em_err extends_trans quiet_extends by blast
    with send_failed(6) show ?thesis by simp
  qed
qed

lemma reloadDevicesAndSend_extends:
  assumes other: "\<And>ev. \<not> is_sendMessages ev \<Longrightarrow> P ev"
      and send: "\<And>a m r. P (Ev_sendMessages a m ts r)"
      and ts: "timestamp s = ts"
  shows "extends P s (snd (reloadDevicesAndSend env n a recurse s))"
  using other doSendMessage_extends[of P ts, OF other send] ts
  by (rule reload_extends_step)

lemma quiet_staleLoop:
  "staleLoop env a ds acc s = (r, s') \<Longrightarrow> (\<And>a d r. P (Ev_hasOpenSession a d r)) \<Longrightarrow> quiet P s s'"
proof (induction ds arbitrary: acc s r s')
  case Nil
  then show ?case by simp
next
  case (Cons d ds)
  obtain r1 s1 where c: "cipher_hasOpenSession env a d s = (r1, s1)"
    by (cases "cipher_hasOpenSession env a d s")
  have q1: "quiet P s s1" using c Cons.prems(2) by (rule quiet_hasOpenSession)
  show ?case
  proof (cases r1)
    case (Inl e)
    with Cons.prems(1) c q1 show ?thesis by simp
  next
    case (Inr b)
    with Cons.prems(1) c
    have "staleLoop env a ds (if \<not> b then acc @ [d] else acc) s1 = (r, s')" by simp
    then have "quiet P s1 s'" using Cons.prems(2) by (rule Cons.IH)
    with q1 show ?thesis by (rule quiet_trans)
  qed
qed

lemma quiet_getStaleDeviceIdsForAddr:
  assumes "getStaleDeviceIdsForAddr env a s = (r, s')"
      and other: "\<And>ev. \<not> is_sendMessages ev \<Longrightarrow> P ev"
  shows "quiet P s s'"
proof -
  obtain r1 s1 where c: "storage_getDeviceIds env a s = (r1, s1)"
    by (cases "storage_getDeviceIds env a s")
  have q1: "quiet P s s1" using c by (rule quiet_getDeviceIds) (simp add: other)
  show ?thesis
  proof (cases r1)
    case (Inl e)
    with assms(1) c q1 show ?thesis by (simp add: getStaleDeviceIdsForAddr_def)
  next
    case (Inr ids)
    show ?thesis
    proof (cases "ids = []")
      case True
      with assms(1) c q1 Inr show ?thesis by (simp add: getStaleDeviceIdsForAddr_def)
    next
      case False
      with assms(1) c Inr have "staleLoop env a ids [] s1 = (r, s')"
        by (simp add: getStaleDeviceIdsForAddr_def)
      then have "quiet P s1 s'" by (rule quiet_staleLoop) (simp add: other)
      with q1 show ?thesis by (rule quiet_trans)
    qed
  qed
qed

lemma sendToAddr_extends:
  assumes other: "\<And>ev. \<not> is_sendMessages ev \<Longrightarrow> P ev"
      and send: "\<And>a m r. P (Ev_sendMessages a m (timestamp s) r)"
  shows "extends P s (snd (sendToAddr env n a s))"
proof -
  have em_err: "\<And>s reason e. extends P s (emitError env a reason e s)"
    by (rule extends_emitError) (simp add: other)
  obtain r1 s1 where c1: "getStaleDeviceIdsForAddr env a s = (r1, s1)"
    by (cases "getStaleDeviceIdsForAddr env a s")
  have q1: "quiet P s s1" using c1 other by (rule quiet_getStaleDeviceIdsForAddr)
  show ?thesis
  proof (cases r1)
    case (Inl e)
    have "extends P s (emitError env a (''Failed to get device ids for address '' @ a) (Some e) s1)"
      using quiet_extends[OF q1] em_err by (rule extends_trans)
    with c1 Inl show ?thesis by (simp add: sendToAddr_def)
  next
    case (Inr updateDevices)
    obtain r2 s2 where c2: "getKeysForAddr env a (Some updateDevices) False s1 = (r2, s2)"
      by (cases "getKeysForAddr env a (Some updateDevices) False s1")
    have "quiet P s1 s2"
      using getKeysForAddr_quiet_other[of P s1 env a "Some updateDevices" False] other c2 by simp
    with q1 have q2: "quiet P s s2" by (rule quiet_trans)
    show ?thesis
    proof (cases r2)
      case (Inl e)
      have "extends P s (emitError env a
              (''Failed to retrieve new device keys for address '' @ a) (Some e) s2)"
        using quiet_extends[OF q2] em_err by (rule extends_trans)
      with c1 Inr c2 Inl show ?thesis by (simp add: sendToAddr_def)
    next
      case r2': (Inr u)
      obtain r3 s3 where c3: "reloadDevicesAndSend env n a True s2 = (r3, s3)"
        by (cases "reloadDevicesAndSend env n a True s2")
      have "extends P s2 (snd (reloadDevicesAndSend env n a True s2))"
        using other send quiet_timestamp[OF q2] by (rule reloadDevicesAndSend_extends)
      then have "extends P s2 s3" using c3 by simp
      with quiet_extends[OF q2] have e3: "extends P s s3" by (rule extends_trans)
      show ?thesis
      proof (cases r3)
        case None
        with c1 Inr c2 r2' c3 e3 show ?thesis
          by (simp add: sendToAddr_def del: reloadDevicesAndSend.simps)
      next
        case (Some x)
        show ?thesis
        proof (cases x)
          case (Inl e)
          have "extends P s (emitError env a (''Failed to send to address '' @ a) (Some e) s3)"
            using e3 em_err by (rule extends_trans)
          with c1 Inr c2 r2' c3 Some Inl show ?thesis
            by (simp add: sendToAddr_def del: reloadDevicesAndSend.simps)
        next
          case (Inr u')
          with c1 \<open>r1 = Inr updateDevices\<close> c2 r2' c3 Some e3 show ?thesis
            by (simp add: sendToAddr_def del: reloadDevicesAndSend.simps)
        qed
      qed
    qed
  qed
qed


lemma emitError_errors:
  "errors (emitError env a reason cause s)
     = errors s @
       [\<lparr>entry_timestamp = Date_now env (trace s),
         entry_error =
           (case cause of
              None \<Rightarrow> OutgoingMessageError a (message s) (timestamp s) None
            | Some (ProtocolError c r) \<Rightarrow>
                if c = 404 then ProtocolError c r
                else OutgoingMessageError a (message s) (timestamp s) (Some (ProtocolError c r))
            | Some e \<Rightarrow> e),
         entry_addr = a, entry_reason = reason\<rparr>]"
proof (cases cause)
  case None
  then show ?thesis by (simp add: emitError_def Let_def)
next
  case (Some e)
  then show ?thesis by (cases e) (simp_all add: emitError_def Let_def)
qed

section \<open>The terminal events of a dispatch\<close>

text \<open>
  C1 fails in the program. After a 409 or 410 the handler in \<open>doSendMessage\<close> sends again
  through \<open>reloadDevicesAndSend\<close>; when that call returns, the outer \<open>doSendMessage\<close>
  falls out of its \<open>catch\<close> block to the \<open>emitSent\<close> of its last line, whatever the
  inner call has emitted. In scenario 2 of the specification (a 409, then a success) the
  log \<open>sent\<close> gets two entries for the address; in scenario 3 with a second 410 the
  dispatch records the error of the retry limit and then a \<open>sent\<close>.
\<close>

theorem sendToAddr_emits_twice:
  "outcome (sendToAddr env_extra_device 3 ''alice'' (OutgoingMessage_new env_extra_device [] 42 []))
     = (Some (), [''alice'', ''alice''], [])
   \<and> outcome (sendToAddr env_stale_device 3 ''alice'' (OutgoingMessage_new env_stale_device [] 42 []))
     = (Some (), [''alice''], [''Hit retry limit attempting to reload device list''])"
  by code_simp

section \<open>The timestamp\<close>

lemma send_timestamp_ok_other: "\<not> is_sendMessages ev \<Longrightarrow> send_timestamp_ok ts ev"
  by (cases ev) simp_all

lemma removeDeviceIdsForAddr_timestamp:
  "timestamp (snd (removeDeviceIdsForAddr env a ds s)) = timestamp s"
  using quiet_removeDeviceIdsForAddr[of env a ds s _ _ "\<lambda>ev. True"]
  by (cases "removeDeviceIdsForAddr env a ds s") (simp add: quiet_timestamp)

text \<open>
  C9. The constructor stores the timestamp it is given, no operation changes it, and
  every send that a dispatch (or a call of \<open>doSendMessage\<close>, with whatever bound on the
  retries) adds to the history carries it.
\<close>

theorem timestamp_immutable:
  "timestamp (OutgoingMessage_new env tr ts msg) = ts
   \<and> timestamp (on ev callback s) = timestamp s
   \<and> timestamp (emitError env a reason e s) = timestamp s
   \<and> timestamp (emitSent env a s) = timestamp s
   \<and> timestamp (snd (getStaleDeviceIdsForAddr env a s)) = timestamp s
   \<and> timestamp (snd (removeDeviceIdsForAddr env a ds s)) = timestamp s
   \<and> timestamp (snd (getKeysForAddr env a u reentrant s)) = timestamp s
   \<and> timestamp (snd (sendToAddr env n a s)) = timestamp s
   \<and> (\<exists>evs. trace (snd (sendToAddr env n a s)) = trace s @ evs
             \<and> list_all (send_timestamp_ok (timestamp s)) evs)
   \<and> (\<exists>evs. trace (snd (doSendMessage env n a ids recurse s)) = trace s @ evs
             \<and> list_all (send_timestamp_ok (timestamp s)) evs)"
proof -
  let ?P = "send_timestamp_ok (timestamp s)"
  have other: "\<And>ev. \<not> is_sendMessages ev \<Longrightarrow> ?P ev"
    by (rule send_timestamp_ok_other)
  have s1: "extends ?P s (snd (sendToAddr env n a s))"
    by (rule sendToAddr_extends[OF other]) simp_all
  have s2: "extends ?P s (snd (doSendMessage env n a ids recurse s))"
    by (rule doSendMessage_extends[OF other]) simp_all
  have g: "timestamp (snd (getKeysForAddr env a u reentrant s)) = timestamp s"
    using getKeysForAddr_quiet_other[of "\<lambda>ev. True" s env a u reentrant]
    by (simp add: quiet_timestamp)
  have st: "timestamp (snd (getStaleDeviceIdsForAddr env a s)) = timestamp s"
    using quiet_getStaleDeviceIdsForAddr[of env a s _ _ "\<lambda>ev. True"]
    by (cases "getStaleDeviceIdsForAddr env a s") (simp add: quiet_timestamp)
  have c: "timestamp (OutgoingMessage_new env tr ts msg) = ts"
    by (simp add: OutgoingMessage_new_def)
  have o: "timestamp (on ev callback s) = timestamp s"
    by (simp add: on_def Let_def)
  have ee: "timestamp (emitError env a reason e s) = timestamp s"
    by (simp add: emitError_def Let_def)
  have es: "timestamp (emitSent env a s) = timestamp s"
    by (simp add: emitSent_def Let_def)
  show ?thesis
    using c o ee es st removeDeviceIdsForAddr_timestamp g extendsD(2)[OF s1] extendsD(1)[OF s1]
      extendsD(1)[OF s2]
    by (intro conjI)
qed

section \<open>Error entries\<close>

text \<open>
  C4, as amended. The entry that \<open>emitError\<close> appends wraps the cause in an
  \<open>OutgoingMessageError\<close> exactly when the cause is missing or is a \<open>ProtocolError\<close>
  with a code other than 404; a \<open>ProtocolError\<close> with code 404 and every error that is
  not a \<open>ProtocolError\<close> are stored as they are.
\<close>

theorem emitError_entry:
  "errors (emitError env a reason cause s)
     = errors s @
       [\<lparr>entry_timestamp = Date_now env (trace s),
         entry_error =
           (case cause of
              None \<Rightarrow> OutgoingMessageError a (message s) (timestamp s) None
            | Some (ProtocolError c r) \<Rightarrow>
                if c = 404 then ProtocolError c r
                else OutgoingMessageError a (message s) (timestamp s) (Some (ProtocolError c r))
            | Some e \<Rightarrow> e),
         entry_addr = a, entry_reason = reason\<rparr>]"
  by (rule emitError_errors)

text \<open>
  C4 as the specification states it fails for a cause that is not a protocol error: a
  \<open>TypeError\<close> is stored unwrapped.
\<close>

theorem emitError_unwrapped_counterexample:
  "map entry_error
     (errors (emitError env_ok ''alice'' ''Failed to send to address alice''
                (Some (TypeError ''x'')) (OutgoingMessage_new env_ok [] 42 [])))
   = [TypeError ''x'']"
  by (simp add: emitError_def Let_def OutgoingMessage_new_def)

section \<open>Key fetches that fail\<close>

text \<open>
  What the loop of \<open>getKeysForAddr\<close> does when the fetch for the device \<open>dev\<close> at its
  head fails with \<open>e\<close>: if \<open>e\<close> is a \<open>ProtocolError\<close> with code 404 and \<open>dev\<close> is
  not the number 1, it removes the session of \<open>dev\<close> and goes on with the other devices;
  otherwise it ends with \<open>e\<close>.
\<close>

lemma getKeysForAddr_loop_fetch_failed:
  assumes "signal_getKeysForAddr env (trace s) a (Some dev) = Inl e"
  shows "getKeysForAddr_loop env a u reentrant (dev # rest) s =
           (if is_ProtocolError e \<and> code e = Some 404 \<and> dev \<noteq> Num 1
            then (case removeDeviceIdsForAddr env a [dev]
                         (log (Ev_getKeysForAddr a (Some dev) (Inl e)) s) of
                    (Inl e', s') \<Rightarrow> (Inl e', s')
                  | (Inr u', s') \<Rightarrow> getKeysForAddr_loop env a u reentrant rest s')
            else (Inl e, log (Ev_getKeysForAddr a (Some dev) (Inl e)) s))"
  using assms
  by (auto simp add: signal_getKeys_def Let_def split: sum.splits)

text \<open>
  C7 fails in the program. The guard of line 344 is the strict \<open>device !== 1\<close>, and the
  list that \<open>sendToAddr\<close> passes holds the ids as the storage lists them, which in the
  repository are strings. A 404 for the primary device \<open>"1"\<close> is therefore not
  rethrown: its session is removed (\<open>removeSession("alice.1")\<close>), no error is raised and
  the dispatch goes on to a \<open>sent\<close>. The same 404 for the number 1 is rethrown by the
  loop step that meets it, as the claim says; but when it is met in the retry that
  follows an accepted \<open>keychange\<close> for device 2, it leaves the retry as the error of
  the loop step for device 2 of the first call, whose handler takes it for a 404 of
  device 2: the session of device 2 is removed and no error is raised.
\<close>

theorem primary_device_pruned_on_404:
  "fst (getKeysForAddr env_primary_404 ''alice'' (Some [Str ''1'']) False
          (OutgoingMessage_new env_primary_404 [] 42 []))
     = Inr ()
   \<and> trace (snd (getKeysForAddr env_primary_404 ''alice'' (Some [Str ''1'']) False
                    (OutgoingMessage_new env_primary_404 [] 42 [])))
     = [Ev_getKeysForAddr ''alice'' (Some (Str ''1'')) (Inl (ProtocolError 404 no_devices)),
        Ev_removeSession ''alice.1'' (Inr ())]
   \<and> fst (getKeysForAddr env_primary_404 ''alice'' (Some [Num 1]) False
            (OutgoingMessage_new env_primary_404 [] 42 []))
     = Inl (ProtocolError 404 no_devices)
   \<and> outcome (sendToAddr env_primary_404 2 ''alice'' (OutgoingMessage_new env_primary_404 [] 42 []))
     = (Some (), [''alice''], [])
   \<and> filter is_removeSession
        (trace (snd (sendToAddr env_primary_404 2 ''alice''
                       (OutgoingMessage_new env_primary_404 [] 42 []))))
     = [Ev_removeSession ''alice.1'' (Inr ())]
   \<and> fst (getKeysForAddr env_primary_404_in_retry ''alice'' (Some [Num 1, Num 2]) False
            (on ''keychange'' accept_keychange
               (OutgoingMessage_new env_primary_404_in_retry [] 42 [])))
     = Inr ()
   \<and> filter (\<lambda>ev. is_removeSession ev \<or> ev = Ev_getKeysForAddr ''alice'' (Some (Num 1))
                                               (Inl (ProtocolError 404 no_devices)))
        (trace (snd (getKeysForAddr env_primary_404_in_retry ''alice'' (Some [Num 1, Num 2]) False
                       (on ''keychange'' accept_keychange
                          (OutgoingMessage_new env_primary_404_in_retry [] 42 [])))))
     = [Ev_getKeysForAddr ''alice'' (Some (Num 1)) (Inl (ProtocolError 404 no_devices)),
        Ev_removeSession ''alice.2'' (Inr ())]"
  by code_simp

section \<open>A stale device without a cipher\<close>


lemma doSendMessage_attempt:
  assumes "attempt env a ids s = Some (cs, r, s2)"
  shows "doSendMessage env (Suc n) a ids recurse s =
     (case r of
        Inr u \<Rightarrow> (Some (Inr ()), emitSent env a s2)
      | Inl e \<Rightarrow>
          if is_ProtocolError e \<and> (code e = Some 410 \<or> code e = Some 409)
          then if \<not> recurse
               then (Some (Inr ()), emitError env a
                       ''Hit retry limit attempting to reload device list'' (Some e) s2)
               else (case reconcile env a cs e s2 of
                       (Inl e', s3) \<Rightarrow> (Some (Inl e'), s3)
                     | (Inr u, s3) \<Rightarrow>
                         (case reloadDevicesAndSend env n a (code e = Some 409) s3 of
                            (None, s4) \<Rightarrow> (None, s4)
                          | (Some (Inl e'), s4) \<Rightarrow>
                              (Some (Inr ()), emitError env a
                                 ''Failed to reload device keys'' (Some e') s4)
                          | (Some (Inr u), s4) \<Rightarrow> (Some (Inr ()), emitSent env a s4)))
          else (Some (Inr ()), emitError env a ''Failed to send message'' (Some e) s2))"
  using assms
  by (auto simp: attempt_def Let_def simp del: reloadDevicesAndSend.simps
           split: sum.splits prod.splits)

lemma encryptAll_ciphers:
  "encryptAll env a pb ids cs0 s = (cs, rs, s1) \<Longrightarrow> dom cs = dom cs0 \<union> id_text ` set ids"
proof (induction ids arbitrary: cs0 s cs rs s1)
  case Nil
  then show ?case by simp
next
  case (Cons d ids)
  obtain r1 t1 where c: "encryptToDevice env (a, d) pb s = (r1, t1)"
    by (cases "encryptToDevice env (a, d) pb s")
  obtain cs2 rs2 s2 where
    c2: "encryptAll env a pb ids (cs0(id_text d \<mapsto> (a, d))) t1 = (cs2, rs2, s2)"
    by (cases "encryptAll env a pb ids (cs0(id_text d \<mapsto> (a, d))) t1")
  have "dom cs2 = dom (cs0(id_text d \<mapsto> (a, d))) \<union> id_text ` set ids"
    using c2 by (rule Cons.IH)
  moreover have "cs = cs2" using Cons.prems c c2 by (simp add: Let_def)
  ultimately show ?case by auto
qed

lemma attempt_ciphers:
  assumes "attempt env a ids s = Some (cs, r, s2)"
  shows "dom cs = id_text ` set ids"
proof -
  from assms obtain pb rs s1 where "encryptAll env a pb ids (\<lambda>d. None) s = (cs, rs, s1)"
    by (auto simp: attempt_def split: sum.splits prod.splits)
  from encryptAll_ciphers[OF this] show ?thesis by simp
qed

lemma closeStale_undefined:
  "\<not> id_text ` set S \<subseteq> dom cs \<Longrightarrow>
     \<exists>s'. closeStale env cs S s
            = (Inl (TypeError ''Cannot read property closeOpenSessionForDevice of undefined''), s')
          \<and> quiet is_closeOpenSession s s'"
proof (induction S arbitrary: s)
  case Nil
  then show ?case by simp
next
  case (Cons x xs)
  show ?case
  proof (cases "cs (id_text x)")
    case None
    then show ?thesis by simp
  next
    case (Some ad)
    let ?r = "closeOpenSessionForDevice env (trace s) (fst ad) (snd ad)"
    let ?s1 = "log (Ev_closeOpenSessionForDevice (fst ad) (snd ad) ?r) s"
    have q1: "quiet is_closeOpenSession s ?s1" by (rule quiet_log) simp
    from Cons.prems Some have "\<not> id_text ` set xs \<subseteq> dom cs" by auto
    from Cons.IH[OF this, of ?s1] obtain s' where
      c: "closeStale env cs xs ?s1
            = (Inl (TypeError ''Cannot read property closeOpenSessionForDevice of undefined''), s')"
      and q2: "quiet is_closeOpenSession ?s1 s'" by blast
    have "closeStale env cs (x # xs) s
            = (Inl (TypeError ''Cannot read property closeOpenSessionForDevice of undefined''), s')"
      using Some c by (simp add: Let_def)
    moreover have "quiet is_closeOpenSession s s'" using q1 q2 by (rule quiet_trans)
    ultimately show ?thesis by blast
  qed
qed

text \<open>
  C10. When the first send of a call with \<open>recurse\<close> true is answered by a 410 whose
  \<open>staleDevices\<close> has a device id that is not among the \<open>deviceIds\<close> just encrypted
  to, \<open>doSendMessage\<close> throws a \<open>TypeError\<close>: the cipher map has an entry for the
  \<open>deviceIds\<close> only. The map is an object, whose keys are the texts of the ids, so
  "among" is by the text of the id: the number 2 finds the cipher of the string \<open>"2"\<close>.
  After the send the call has closed sessions at most: it has fetched no key, sent nothing
  again and appended nothing to its logs.
\<close>

theorem stale_device_without_cipher:
  assumes att: "attempt env a ids s = Some (cs, Inl (ProtocolError 410 resp), s2)"
      and stale: "staleDevices resp = Some S"
      and outside: "\<not> id_text ` set S \<subseteq> id_text ` set ids"
  shows "\<exists>s3. doSendMessage env (Suc n) a ids True s
                = (Some (Inl (TypeError
                     ''Cannot read property closeOpenSessionForDevice of undefined'')), s3)
              \<and> quiet is_closeOpenSession s2 s3"
proof -
  from outside attempt_ciphers[OF att] have "\<not> id_text ` set S \<subseteq> dom cs" by simp
  from closeStale_undefined[OF this, of env s2] obtain s3 where
    c: "closeStale env cs S s2
          = (Inl (TypeError ''Cannot read property closeOpenSessionForDevice of undefined''), s3)"
    and q: "quiet is_closeOpenSession s2 s3" by blast
  have "reconcile env a cs (ProtocolError 410 resp) s2
          = (Inl (TypeError ''Cannot read property closeOpenSessionForDevice of undefined''), s3)"
    using stale c by (simp add: reconcile_def)
  then have "doSendMessage env (Suc n) a ids True s
          = (Some (Inl (TypeError
               ''Cannot read property closeOpenSessionForDevice of undefined'')), s3)"
    by (simp add: doSendMessage_attempt[OF att] del: doSendMessage.simps)
  with q show ?thesis by blast
qed

theorem stale_device_without_cipher_witness:
  "fst (doSendMessage env_410_unknown_device 1 ''alice'' [Str ''1''] True
          (OutgoingMessage_new env_410_unknown_device [] 42 []))
     = Some (Inl (TypeError ''Cannot read property closeOpenSessionForDevice of undefined''))"
proof -
  let ?E = env_410_unknown_device
  let ?s = "OutgoingMessage_new ?E [] 42 []"
  let ?resp = "\<lparr>extraDevices = None, missingDevices = None, staleDevices = Some [Num 2]\<rparr>"
  have "\<exists>cs s2. attempt ?E ''alice'' [Str ''1''] ?s
                  = Some (cs, Inl (ProtocolError 410 ?resp), s2)"
    by (simp add: attempt_def paddedBuf_of_eq encryptToDevice_def transmitMessage_def
                  signal_send_def Let_def env_410_unknown_device_def env_ok_def)
  then obtain cs s2 where
    att: "attempt ?E ''alice'' [Str ''1''] ?s = Some (cs, Inl (ProtocolError 410 ?resp), s2)"
    by blast
  have st: "staleDevices ?resp = Some [Num 2]" by simp
  have out: "\<not> id_text ` set [Num 2] \<subseteq> id_text ` set [Str ''1'']"
    by (simp add: text_of_small_numbers)
  from stale_device_without_cipher[OF att st out, of 0] obtain s3 where
    "doSendMessage ?E (Suc 0) ''alice'' [Str ''1''] True ?s
       = (Some (Inl (TypeError
            ''Cannot read property closeOpenSessionForDevice of undefined'')), s3)"
    by blast
  then show ?thesis by (simp del: doSendMessage.simps)
qed

section \<open>Recovery from a 409\<close>

lemma new_events_self [simp]: "new_events s s = []"
  by (simp add: new_events_def)

lemma new_events_append: "trace s' = trace s @ evs \<Longrightarrow> new_events s s' = evs"
  by (simp add: new_events_def)

lemma new_events_trans:
  assumes "extends P s s1" "extends Q s1 s2"
  shows "new_events s s2 = new_events s s1 @ new_events s1 s2"
proof -
  from assms have "trace s1 = trace s @ new_events s s1" "trace s2 = trace s1 @ new_events s1 s2"
    by (simp_all add: extends_def)
  then have "trace s2 = trace s @ (new_events s s1 @ new_events s1 s2)" by simp
  then show ?thesis by (rule new_events_append)
qed

lemma new_events_log [simp]: "new_events s (log ev s) = [ev]"
  by (simp add: new_events_def)

lemma extends_True: "quiet P s s' \<Longrightarrow> extends (\<lambda>ev. True) s s'"
  by (auto simp: quiet_def intro: extends_mono)

lemma removeDeviceIdsForAddr_events:
  "removeDeviceIdsForAddr env a E s = (Inr u, s')
     \<Longrightarrow> new_events s s' = map (\<lambda>e. Ev_removeSession (encodedAddr a e) (Inr ())) E"
proof (induction E arbitrary: s)
  case Nil
  then show ?case by simp
next
  case (Cons d ds)
  obtain r1 s1 where c: "storage_removeSession env (encodedAddr a d) s = (r1, s1)"
    by (cases "storage_removeSession env (encodedAddr a d) s")
  from Cons.prems c obtain u1 where r1: "r1 = Inr u1"
    and rest: "removeDeviceIdsForAddr env a ds s1 = (Inr u, s')"
    by (cases r1) auto
  have s1: "s1 = log (Ev_removeSession (encodedAddr a d) (Inr ())) s"
    using c r1 by (auto simp: storage_removeSession_def Let_def)
  have e1: "extends (\<lambda>ev. True) s s1"
    unfolding s1 by (rule extends_True[OF quiet_log]) simp
  have e2: "extends (\<lambda>ev. True) s1 s'"
    using quiet_removeDeviceIdsForAddr[OF rest, of "\<lambda>ev. True"] by (simp add: quiet_extends)
  have "new_events s s' = new_events s s1 @ new_events s1 s'"
    using e1 e2 by (rule new_events_trans)
  then show ?case
    using Cons.IH[OF rest] by (simp add: s1)
qed

lemma fetched_append [simp]: "fetched (xs @ ys) = fetched xs @ fetched ys"
  by (induction xs rule: fetched.induct) simp_all

lemma fetched_within:
  "list_all (fetch_within a ds) evs \<Longrightarrow> set (fetched evs) \<subseteq> (\<lambda>d. (a, Some d)) ` set ds"
  by (induction evs rule: fetched.induct) auto

lemma getKeysForAddr_fetch_within:
  "quiet (fetch_within a ds) s (snd (getKeysForAddr env a (Some ds) reentrant s))"
  using getKeys_quiet(4)[of "fetch_within a ds" "Some ds" a reentrant s env]
  by simp

lemma getKeysForAddr_loop_quiet_True:
  "extends (\<lambda>ev. True) s (snd (getKeysForAddr_loop env a u reentrant rest s))"
  using getKeys_quiet(3)[of "\<lambda>ev. True" u a rest reentrant s env]
  by (simp add: quiet_extends)

lemma getKeysForAddr_loop_fetches_all:
  "getKeysForAddr_loop env a u reentrant rest s = (Inr x, s')
     \<Longrightarrow> (\<lambda>d. (a, Some d)) ` set rest \<subseteq> set (fetched (new_events s s'))"
proof (induction rest arbitrary: s)
  case Nil
  then show ?case by simp
next
  case (Cons dev rest)
  let ?r = "signal_getKeysForAddr env (trace s) a (Some dev)"
  let ?s1 = "log (Ev_getKeysForAddr a (Some dev) ?r) s"
  have g: "signal_getKeys env a (Some dev) s = (?r, ?s1)"
    by (simp add: signal_getKeys_def Let_def)
  have e1: "extends (\<lambda>ev. True) s ?s1"
    by (rule extends_True[OF quiet_log]) simp
  let ?fetch = "case signal_getKeys env a (Some dev) s of
                  (Inl e, s1) \<Rightarrow> (Inl e, s1)
                | (Inr response, s1) \<Rightarrow>
                    handleResult_jobs env a u reentrant response (devices response) s1"
  obtain r2 s2 where c2: "?fetch = (r2, s2)" by (cases ?fetch)
  have e12: "extends (\<lambda>ev. True) ?s1 s2"
  proof (cases ?r)
    case (Inl e)
    with c2 g show ?thesis by auto
  next
    case (Inr resp)
    with c2 g have "s2 = snd (handleResult_jobs env a u reentrant resp (devices resp) ?s1)"
      by auto
    then show ?thesis
      using getKeys_quiet(2)[of "\<lambda>ev. True" u a reentrant ?s1 env resp "devices resp"]
      by (simp add: quiet_extends)
  qed
  obtain s3 where rest: "getKeysForAddr_loop env a u reentrant rest s3 = (Inr x, s')"
    and e23: "extends (\<lambda>ev. True) s2 s3"
  proof (cases r2)
    case (Inr b)
    with Cons.prems c2 have "getKeysForAddr_loop env a u reentrant rest s2 = (Inr x, s')"
      by simp
    then show ?thesis using that[of s2] by simp
  next
    case (Inl e)
    show ?thesis
    proof (cases "is_ProtocolError e \<and> code e = Some 404 \<and> dev \<noteq> Num 1")
      case False
      with Cons.prems c2 Inl show ?thesis by auto
    next
      case True
      obtain r3 s3 where c3: "removeDeviceIdsForAddr env a [dev] s2 = (r3, s3)"
        by (cases "removeDeviceIdsForAddr env a [dev] s2")
      have q: "extends (\<lambda>ev. True) s2 s3"
        using quiet_removeDeviceIdsForAddr[OF c3, of "\<lambda>ev. True"] by (simp add: quiet_extends)
      from Cons.prems c2 Inl True c3
      have "getKeysForAddr_loop env a u reentrant rest s3 = (Inr x, s')"
        by (cases r3) (simp_all del: removeDeviceIdsForAddr.simps)
      then show ?thesis using that[of s3] q by simp
    qed
  qed
  have e3: "extends (\<lambda>ev. True) s3 s'"
    using getKeysForAddr_loop_quiet_True[of s3 env a u reentrant rest] rest by simp
  have e13: "extends (\<lambda>ev. True) ?s1 s3" using e12 e23 by (rule extends_trans)
  have e1': "extends (\<lambda>ev. True) ?s1 s'" using e13 e3 by (rule extends_trans)
  have ne: "new_events s s' = [Ev_getKeysForAddr a (Some dev) ?r] @ new_events ?s1 s3 @ new_events s3 s'"
    using new_events_trans[OF e1 e1'] new_events_trans[OF e13 e3] by simp
  have "(\<lambda>d. (a, Some d)) ` set rest \<subseteq> set (fetched (new_events s3 s'))"
    using rest by (rule Cons.IH)
  then show ?case unfolding ne by auto
qed

text \<open>
  C6. When the first send of a call with \<open>recurse\<close> true is answered by a 409 with
  \<open>extraDevices = E\<close> and \<open>missingDevices = M\<close>, and the removals and the key exchange
  succeed: the history between the send and the retry is one successful
  \<open>removeSession\<close> of \<open>addr.e\<close> for each \<open>e\<close> of \<open>E\<close>, in order, followed by the
  key exchange, whose fetches are for the devices of \<open>M\<close> at this address and for no
  other (none when \<open>M\<close> is empty); then the call goes on as
  \<open>reloadDevicesAndSend\<close> with \<open>recurse\<close> true, which only adds to that history.
\<close>

theorem mismatched_devices_recovery:
  assumes att: "attempt env a ids s = Some (cs, Inl (ProtocolError 409 resp), s2)"
      and extra: "extraDevices resp = Some E"
      and missing: "missingDevices resp = Some M"
      and rm: "removeDeviceIdsForAddr env a E s2 = (Inr u, s3)"
      and keys: "getKeysForAddr env a (Some M) False s3 = (Inr u', s4)"
  shows "doSendMessage env (Suc n) a ids True s =
           (case reloadDevicesAndSend env n a True s4 of
              (None, s5) \<Rightarrow> (None, s5)
            | (Some (Inl e'), s5) \<Rightarrow>
                (Some (Inr ()), emitError env a ''Failed to reload device keys'' (Some e') s5)
            | (Some (Inr u), s5) \<Rightarrow> (Some (Inr ()), emitSent env a s5))
         \<and> trace s4 = trace s2 @ new_events s2 s3 @ new_events s3 s4
         \<and> new_events s2 s3 = map (\<lambda>e. Ev_removeSession (encodedAddr a e) (Inr ())) E
         \<and> set (fetched (new_events s3 s4)) = (\<lambda>d. (a, Some d)) ` set M
         \<and> (\<exists>evs. trace (snd (reloadDevicesAndSend env n a True s4)) = trace s4 @ evs)"
proof -
  have rc: "reconcile env a cs (ProtocolError 409 resp) s2 = (Inr u', s4)"
    using extra missing rm keys by (simp add: reconcile_def)
  have one: "doSendMessage env (Suc n) a ids True s =
           (case reloadDevicesAndSend env n a True s4 of
              (None, s5) \<Rightarrow> (None, s5)
            | (Some (Inl e'), s5) \<Rightarrow>
                (Some (Inr ()), emitError env a ''Failed to reload device keys'' (Some e') s5)
            | (Some (Inr u), s5) \<Rightarrow> (Some (Inr ()), emitSent env a s5))"
    using rc
    by (simp add: doSendMessage_attempt[OF att] del: doSendMessage.simps reloadDevicesAndSend.simps)
  have q23: "quiet (\<lambda>ev. True) s2 s3"
    using rm by (rule quiet_removeDeviceIdsForAddr) simp
  have q34: "quiet (fetch_within a M) s3 s4"
    using getKeysForAddr_fetch_within[of a M s3 env False] keys by simp
  have two: "trace s4 = trace s2 @ new_events s2 s3 @ new_events s3 s4"
    using q23 q34 by (simp add: quiet_def extends_def)
  have three: "new_events s2 s3 = map (\<lambda>e. Ev_removeSession (encodedAddr a e) (Inr ())) E"
    using rm by (rule removeDeviceIdsForAddr_events)
  have sub: "set (fetched (new_events s3 s4)) \<subseteq> (\<lambda>d. (a, Some d)) ` set M"
    using q34 by (intro fetched_within) (simp add: quiet_def extends_def)
  have "getKeysForAddr_loop env a (Some M) False M s3 = (Inr u', s4)"
    using keys by simp
  then have sup: "(\<lambda>d. (a, Some d)) ` set M \<subseteq> set (fetched (new_events s3 s4))"
    by (rule getKeysForAddr_loop_fetches_all)
  have five: "\<exists>evs. trace (snd (reloadDevicesAndSend env n a True s4)) = trace s4 @ evs"
    using reloadDevicesAndSend_extends[of "\<lambda>ev. True" "timestamp s4" s4 env n a True]
    by (auto simp: extends_def)
  show ?thesis
    using one two three sub sup five by (intro conjI) auto
qed

theorem mismatched_devices_recovery_witness:
  "\<exists>s2 s3 s4.
     new_events s2 s3 = [Ev_removeSession ''alice.3'' (Inr ())]
     \<and> set (fetched (new_events s3 s4)) = {(''alice'', Some (Num 4))}
     \<and> doSendMessage env_409_prune (Suc 1) ''alice'' [Str ''1'', Str ''2'', Str ''3''] True
          (OutgoingMessage_new env_409_prune [] 42 []) =
          (case reloadDevicesAndSend env_409_prune 1 ''alice'' True s4 of
             (None, s5) \<Rightarrow> (None, s5)
           | (Some (Inl e'), s5) \<Rightarrow>
               (Some (Inr ()), emitError env_409_prune ''alice'' ''Failed to reload device keys''
                                 (Some e') s5)
           | (Some (Inr u), s5) \<Rightarrow> (Some (Inr ()), emitSent env_409_prune ''alice'' s5))"
proof -
  let ?E = env_409_prune
  let ?s = "OutgoingMessage_new ?E [] 42 []"
  let ?resp = "\<lparr>extraDevices = Some [Num 3], missingDevices = Some [Num 4],
                 staleDevices = None\<rparr>"
  have "\<exists>cs s2. attempt ?E ''alice'' [Str ''1'', Str ''2'', Str ''3''] ?s = Some (cs, Inl (ProtocolError 409 ?resp), s2)"
    by (simp add: attempt_def paddedBuf_of_eq encryptToDevice_def transmitMessage_def
                  signal_send_def Let_def env_409_prune_def env_ok_def OutgoingMessage_new_def
                  log_def)
  then obtain cs s2 where
    att: "attempt ?E ''alice'' [Str ''1'', Str ''2'', Str ''3''] ?s = Some (cs, Inl (ProtocolError 409 ?resp), s2)"
    by blast
  have "\<exists>s3. removeDeviceIdsForAddr ?E ''alice'' [Num 3] s2 = (Inr (), s3)"
    by (simp add: storage_removeSession_def Let_def env_409_prune_def env_ok_def)
  then obtain s3 where rm: "removeDeviceIdsForAddr ?E ''alice'' [Num 3] s2 = (Inr (), s3)"
    by blast
  have "\<exists>s4. getKeysForAddr ?E ''alice'' (Some [Num 4]) False s3 = (Inr (), s4)"
    by (simp add: signal_getKeys_def Let_def env_409_prune_def env_ok_def)
  then obtain s4 where keys: "getKeysForAddr ?E ''alice'' (Some [Num 4]) False s3 = (Inr (), s4)"
    by blast
  have ex: "extraDevices ?resp = Some [Num 3]" and mi: "missingDevices ?resp = Some [Num 4]"
    by simp_all
  note T = mismatched_devices_recovery[OF att ex mi rm keys, where n=1]
  have run: "doSendMessage ?E (Suc 1) ''alice'' [Str ''1'', Str ''2'', Str ''3''] True ?s =
          (case reloadDevicesAndSend ?E 1 ''alice'' True s4 of
             (None, s5) \<Rightarrow> (None, s5)
           | (Some (Inl e'), s5) \<Rightarrow>
               (Some (Inr ()), emitError ?E ''alice'' ''Failed to reload device keys'' (Some e') s5)
           | (Some (Inr u), s5) \<Rightarrow> (Some (Inr ()), emitSent ?E ''alice'' s5))"
    using T by (rule conjunct1)
  have removed: "new_events s2 s3
                   = map (\<lambda>e. Ev_removeSession (encodedAddr ''alice'' e) (Inr ())) [Num 3]"
    using T by (elim conjE)
  have fetches: "set (fetched (new_events s3 s4)) = (\<lambda>d. (''alice'', Some d)) ` set [Num 4]"
    using T by (elim conjE)
  have r': "new_events s2 s3 = [Ev_removeSession ''alice.3'' (Inr ())]"
    using removed by (simp add: encodedAddr_def text_of_small_numbers)
  have f': "set (fetched (new_events s3 s4)) = {(''alice'', Some (Num 4))}"
    using fetches by simp
  show ?thesis
    by (rule exI[of _ s2], rule exI[of _ s3], rule exI[of _ s4]) (intro conjI r' f' run)
qed

section \<open>The retry limit\<close>

lemma send_results_append [simp]: "send_results (xs @ ys) = send_results xs @ send_results ys"
  by (induction xs rule: send_results.induct) simp_all

lemma send_results_none: "list_all (\<lambda>ev. \<not> is_sendMessages ev) evs \<Longrightarrow> send_results evs = []"
  by (induction evs rule: send_results.induct) simp_all

lemma sends_trans:
  "extends P s s1 \<Longrightarrow> extends Q s1 s2 \<Longrightarrow> sends s s2 = sends s s1 @ sends s1 s2"
  using new_events_trans[of P s s1 Q s2] by (simp add: sends_def)

lemma sends_none: "extends (\<lambda>ev. \<not> is_sendMessages ev) s s' \<Longrightarrow> sends s s' = []"
  by (simp add: sends_def extends_def send_results_none)

lemma sends_quiet: "quiet (\<lambda>ev. \<not> is_sendMessages ev) s s' \<Longrightarrow> sends s s' = []"
  by (simp add: quiet_def sends_none)

lemma transmitMessage_events:
  assumes "transmitMessage env a m t s = (r, s')"
  shows "\<exists>x. s' = log (Ev_sendMessages a m t x) s \<and> (is_410 x \<longrightarrow> r = x)
             \<and> (\<forall>e. r = Inl e \<longrightarrow> is_ProtocolError e \<longrightarrow> x = r)"
proof -
  let ?x = "signal_sendMessages env (trace s) a m t"
  have s': "s' = log (Ev_sendMessages a m t ?x) s"
    using assms by (auto simp: transmitMessage_def signal_send_def Let_def split: sum.splits if_splits)
  have a: "is_410 ?x \<longrightarrow> r = ?x"
    using assms
    by (cases ?x rule: is_410.cases)
       (auto simp: transmitMessage_def signal_send_def Let_def split: sum.splits if_splits)
  have b: "\<forall>e. r = Inl e \<longrightarrow> is_ProtocolError e \<longrightarrow> ?x = r"
    using assms
    by (auto simp: transmitMessage_def signal_send_def Let_def split: sum.splits if_splits)
  from s' a b show ?thesis by blast
qed

lemma transmitMessage_sends:
  assumes "transmitMessage env a m t s = (r, s')"
  obtains x where "sends s s' = [x]" "extends (\<lambda>ev. True) s s'" "is_410 x \<longrightarrow> r = x"
    "\<And>e. r = Inl e \<Longrightarrow> is_ProtocolError e \<Longrightarrow> x = r"
proof -
  from transmitMessage_events[OF assms] obtain x where
    s': "s' = log (Ev_sendMessages a m t x) s" and a: "is_410 x \<longrightarrow> r = x"
    and b: "\<forall>e. r = Inl e \<longrightarrow> is_ProtocolError e \<longrightarrow> x = r" by blast
  have "sends s s' = [x]" by (simp add: s' sends_def)
  moreover have "extends (\<lambda>ev. True) s s'"
    unfolding s' by (rule extends_True[OF quiet_log]) simp
  ultimately show thesis using a b that by blast
qed

lemma sends_emitError: "sends s (emitError env a reason e s) = []"
  by (rule sends_none, rule extends_emitError) simp

lemma sends_emitSent: "sends s (emitSent env a s) = []"
  by (rule sends_none, rule extends_emitSent) simp

lemma extends_emitError_True: "extends (\<lambda>ev. True) s (emitError env a reason e s)"
  by (rule extends_emitError) simp

lemma extends_emitSent_True: "extends (\<lambda>ev. True) s (emitSent env a s)"
  by (rule extends_emitSent) simp

lemma sends_ok_Nil [simp]: "sends_ok recurse []"
  by (simp add: sends_ok_def)

lemma sends_ok_single [simp]: "sends_ok recurse [x]"
  by (simp add: sends_ok_def)

lemma doSendMessage_extends_True:
  "extends (\<lambda>ev. True) s (snd (doSendMessage env n a ids recurse s))"
  by (rule doSendMessage_extends[where ts="timestamp s"]) simp_all

lemma reloadDevicesAndSend_extends_True:
  "extends (\<lambda>ev. True) s (snd (reloadDevicesAndSend env n a recurse s))"
  by (rule reloadDevicesAndSend_extends[where ts="timestamp s"]) simp_all

lemma reload_sends_step:
  assumes IH: "\<And>ids s'. sends_ok recurse (sends s' (snd (doSendMessage env n a ids recurse s')))"
  shows "sends_ok recurse (sends s (snd (reloadDevicesAndSend env n a recurse s)))"
proof -
  obtain r1 s1 where c: "storage_getDeviceIds env a s = (r1, s1)"
    by (cases "storage_getDeviceIds env a s")
  have q1: "quiet (\<lambda>ev. \<not> is_sendMessages ev) s s1"
    using c by (rule quiet_getDeviceIds) simp
  show ?thesis
  proof (cases r1)
    case (Inl e)
    with c sends_quiet[OF q1] show ?thesis by simp
  next
    case (Inr ids)
    let ?s' = "snd (doSendMessage env n a ids recurse s1)"
    have "sends s ?s' = sends s s1 @ sends s1 ?s'"
      using quiet_extends[OF q1] doSendMessage_extends_True by (rule sends_trans)
    then have "sends s ?s' = sends s1 ?s'" by (simp add: sends_quiet[OF q1])
    with IH[of s1 ids] c Inr show ?thesis by simp
  qed
qed

lemma doSendMessage_sends_ok:
  "sends_ok recurse (sends s (snd (doSendMessage env n a ids recurse s)))"
proof (induction n arbitrary: ids recurse s)
  case 0
  show ?case by (simp add: sends_def)
next
  case (Suc n)
  let ?N = "\<lambda>ev. \<not> is_sendMessages ev"
  have other: "\<And>ev. \<not> is_sendMessages ev \<Longrightarrow> ?N ev" by simp
  have upto_send: "\<exists>x. sends s s2 = [x] \<and> extends (\<lambda>ev. True) s s2
                      \<and> (\<forall>e. r = Inl e \<longrightarrow> is_ProtocolError e \<longrightarrow> x = r)"
    if enc: "encryptAll env a pb ids (\<lambda>d. None) s = (cs, rs, s1)"
    and tx: "transmitMessage env a messages (timestamp s1) s1 = (r, s2)"
    for pb cs rs s1 messages r s2
  proof -
    have q1: "quiet ?N s s1" using enc by (rule quiet_encryptAll) simp
    from transmitMessage_sends[OF tx] obtain x where x: "sends s1 s2 = [x]"
      and e2: "extends (\<lambda>ev. True) s1 s2"
      and b: "\<And>e. r = Inl e \<Longrightarrow> is_ProtocolError e \<Longrightarrow> x = r" by metis
    have "sends s s2 = sends s s1 @ sends s1 s2"
      using quiet_extends[OF q1] e2 by (rule sends_trans)
    then have "sends s s2 = [x]" by (simp add: sends_quiet[OF q1] x)
    moreover have "extends (\<lambda>ev. True) s s2"
      using extends_True[OF q1] e2 by (rule extends_trans)
    ultimately show ?thesis using b by blast
  qed
  have then_error: "sends s (emitError env a reason e t) = sends s t"
    if "extends (\<lambda>ev. True) s t" for t reason e
    using sends_trans[OF that extends_emitError_True, of env a reason e]
    by (simp add: sends_emitError)
  have then_sent: "sends s (emitSent env a t) = sends s t"
    if "extends (\<lambda>ev. True) s t" for t
    using sends_trans[OF that extends_emitSent_True, of env a]
    by (simp add: sends_emitSent)
  show ?case
  proof (cases rule: doSendMessage_Suc_cases[of env s a ids n recurse])
    case (encrypt_failed pb cs rs s1 e)
    have q1: "quiet ?N s s1" using encrypt_failed(2) by (rule quiet_encryptAll) simp
    show ?thesis
      using then_error[OF extends_True[OF q1]] sends_quiet[OF q1]
      by (simp add: encrypt_failed(4) del: doSendMessage.simps)
  next
    case (accepted pb cs rs s1 messages u s2)
    from upto_send[OF accepted(2,4)] obtain x where "sends s s2 = [x]"
      "extends (\<lambda>ev. True) s s2" by blast
    then show ?thesis using then_sent by (simp add: accepted(5) del: doSendMessage.simps)
  next
    case (retry_limit pb cs rs s1 messages e s2)
    from upto_send[OF retry_limit(2,4)] obtain x where "sends s s2 = [x]"
      "extends (\<lambda>ev. True) s s2" by blast
    then show ?thesis using then_error by (simp add: retry_limit(8) del: doSendMessage.simps)
  next
    case (reconcile_failed pb cs rs s1 messages e s2 e' s3)
    from upto_send[OF reconcile_failed(2,4)] obtain x where x: "sends s s2 = [x]"
      and e2: "extends (\<lambda>ev. True) s s2" by blast
    have q3: "quiet ?N s2 s3" using reconcile_failed(8) other by (rule quiet_reconcile)
    have "sends s s3 = sends s s2 @ sends s2 s3"
      using e2 quiet_extends[OF q3] by (rule sends_trans)
    then show ?thesis by (simp add: reconcile_failed(9) x sends_quiet[OF q3] del: doSendMessage.simps)
  next
    case (send_failed pb cs rs s1 messages e s2)
    from upto_send[OF send_failed(2,4)] obtain x where "sends s s2 = [x]"
      "extends (\<lambda>ev. True) s s2" by blast
    then show ?thesis using then_error by (simp add: send_failed(6) del: doSendMessage.simps)
  next
    case (retry pb cs rs s1 messages e s2 u s3 r4 s4)
    from upto_send[OF retry(2,4)] retry(5) obtain x where x: "sends s s2 = [x]"
      and e2: "extends (\<lambda>ev. True) s s2" and xe: "x = Inl e" by blast
    have q3: "quiet ?N s2 s3" using retry(8) other by (rule quiet_reconcile)
    have e3: "extends (\<lambda>ev. True) s s3"
      using e2 extends_True[OF q3] by (rule extends_trans)
    have s3: "sends s s3 = [x]"
      using sends_trans[OF e2 quiet_extends[OF q3]] by (simp add: x sends_quiet[OF q3])
    have e34: "extends (\<lambda>ev. True) s3 s4"
      using reloadDevicesAndSend_extends_True[of s3 env n a "code e = Some 409"] retry(9) by simp
    have e4: "extends (\<lambda>ev. True) s s4" using e3 e34 by (rule extends_trans)
    have s4: "sends s s4 = x # sends s3 s4"
      using sends_trans[OF e3 e34] by (simp add: s3)
    have nested: "sends_ok (code e = Some 409) (sends s3 s4)"
      using reload_sends_step[of "code e = Some 409" env n a s3, OF Suc.IH] retry(9) by simp
    have final: "sends s (snd (doSendMessage env (Suc n) a ids recurse s)) = x # sends s3 s4"
      using s4 then_error[OF e4] then_sent[OF e4]
      by (simp add: retry(10) del: doSendMessage.simps split: option.splits sum.splits)
    obtain c resp where e: "e = ProtocolError c resp" using retry(5) by (cases e) simp_all
    show ?thesis
    proof (cases "c = 409")
      case True
      with nested e have "stops_after_410 (sends s3 s4)" by (simp add: sends_ok_def)
      with True retry(7) show ?thesis unfolding final by (simp add: xe e sends_ok_def)
    next
      case False
      with nested e have "length (sends s3 s4) \<le> 1" "stops_after_410 (sends s3 s4)"
        by (simp_all add: sends_ok_def)
      with retry(7) show ?thesis unfolding final by (simp add: xe e sends_ok_def)
    qed
  qed
qed

lemma sendToAddr_sends_ok:
  "stops_after_410 (sends s (snd (sendToAddr env n a s)))"
proof -
  let ?N = "\<lambda>ev. \<not> is_sendMessages ev"
  have other: "\<And>ev. \<not> is_sendMessages ev \<Longrightarrow> ?N ev" by simp
  have then_error: "sends s (emitError env a reason e t) = sends s t"
    if "extends (\<lambda>ev. True) s t" for t reason e
    using sends_trans[OF that extends_emitError_True, of env a reason e]
    by (simp add: sends_emitError)
  obtain r1 s1 where c1: "getStaleDeviceIdsForAddr env a s = (r1, s1)"
    by (cases "getStaleDeviceIdsForAddr env a s")
  have q1: "quiet ?N s s1" using c1 other by (rule quiet_getStaleDeviceIdsForAddr)
  show ?thesis
  proof (cases r1)
    case (Inl e)
    then show ?thesis
      using c1 then_error[OF extends_True[OF q1]] sends_quiet[OF q1]
      by (simp add: sendToAddr_def)
  next
    case (Inr updateDevices)
    obtain r2 s2 where c2: "getKeysForAddr env a (Some updateDevices) False s1 = (r2, s2)"
      by (cases "getKeysForAddr env a (Some updateDevices) False s1")
    have "quiet ?N s1 s2"
      using getKeysForAddr_quiet_other[of ?N s1 env a "Some updateDevices" False] c2 by simp
    with q1 have q2: "quiet ?N s s2" by (rule quiet_trans)
    show ?thesis
    proof (cases r2)
      case (Inl e)
      then show ?thesis
        using c1 Inr c2 then_error[OF extends_True[OF q2]] sends_quiet[OF q2]
        by (simp add: sendToAddr_def)
    next
      case r2': (Inr u)
      obtain r3 s3 where c3: "reloadDevicesAndSend env n a True s2 = (r3, s3)"
        by (cases "reloadDevicesAndSend env n a True s2")
      have e23: "extends (\<lambda>ev. True) s2 s3"
        using reloadDevicesAndSend_extends_True[of s2 env n a True] c3 by simp
      have e3: "extends (\<lambda>ev. True) s s3"
        using extends_True[OF q2] e23 by (rule extends_trans)
      have "sends s s3 = sends s s2 @ sends s2 s3"
        using extends_True[OF q2] e23 by (rule sends_trans)
      then have s3: "sends s s3 = sends s2 s3" by (simp add: sends_quiet[OF q2])
      have "sends_ok True (sends s2 s3)"
        using reload_sends_step[of True env n a s2, OF doSendMessage_sends_ok] c3 by simp
      then have ok: "stops_after_410 (sends s s3)" by (simp add: s3 sends_ok_def)
      have "sends s (snd (sendToAddr env n a s)) = sends s s3"
        using c1 Inr c2 r2' c3 then_error[OF e3]
        by (simp add: sendToAddr_def del: reloadDevicesAndSend.simps
                 split: option.splits sum.splits)
      with ok show ?thesis by simp
    qed
  qed
qed

lemma attempt_quiet:
  assumes "attempt env a ids s = Some (cs, r, s2)"
  shows "quiet (\<lambda>ev. True) s s2"
proof -
  from assms obtain pb rs s1 messages where
    enc: "encryptAll env a pb ids (\<lambda>d. None) s = (cs, rs, s1)"
    and tx: "transmitMessage env a messages (timestamp s1) s1 = (r, s2)"
    by (auto simp: attempt_def split: sum.splits prod.splits)
  have "quiet (\<lambda>ev. True) s s1" using enc by (rule quiet_encryptAll) simp
  moreover have "quiet (\<lambda>ev. True) s1 s2" using tx by (rule quiet_transmitMessage) simp
  ultimately show ?thesis by (rule quiet_trans)
qed

text \<open>
  C5. In the sends of a call of \<open>doSendMessage\<close> and in those of a dispatch, every
  answer 410 is followed by at most one more send, and a call with \<open>recurse\<close> false
  sends at most once. After a 410, when the reconciliation succeeds, the call goes on as
  \<open>reloadDevicesAndSend\<close> with \<open>recurse\<close> false; and a call with \<open>recurse\<close> false
  whose send is answered by a 409 or a 410 appends the error of the retry limit and returns
  without another send.
\<close>

theorem second_410_is_final:
  "stops_after_410 (sends s (snd (doSendMessage env n a ids recurse s)))
   \<and> stops_after_410 (sends s (snd (sendToAddr env n a s)))
   \<and> length (sends s (snd (doSendMessage env n a ids False s))) \<le> 1
   \<and> (attempt env a ids s = Some (cs, Inl (ProtocolError 410 resp), s2) \<longrightarrow>
        reconcile env a cs (ProtocolError 410 resp) s2 = (Inr u, s3) \<longrightarrow>
        doSendMessage env (Suc n) a ids True s =
          (case reloadDevicesAndSend env n a False s3 of
             (None, s4) \<Rightarrow> (None, s4)
           | (Some (Inl e'), s4) \<Rightarrow>
               (Some (Inr ()), emitError env a ''Failed to reload device keys'' (Some e') s4)
           | (Some (Inr u), s4) \<Rightarrow> (Some (Inr ()), emitSent env a s4)))
   \<and> (attempt env a ids' t = Some (cs', Inl (ProtocolError c resp'), t2) \<longrightarrow>
        c = 410 \<or> c = 409 \<longrightarrow>
        doSendMessage env (Suc n) a ids' False t =
          (Some (Inr ()), emitError env a ''Hit retry limit attempting to reload device list''
                            (Some (ProtocolError c resp')) t2))"
proof -
  have a: "stops_after_410 (sends s (snd (doSendMessage env n a ids recurse s)))"
    using doSendMessage_sends_ok[of recurse s env n a ids] by (simp add: sends_ok_def)
  have b: "length (sends s (snd (doSendMessage env n a ids False s))) \<le> 1"
    using doSendMessage_sends_ok[of False s env n a ids] by (simp add: sends_ok_def)
  show ?thesis
    using a b sendToAddr_sends_ok
    by (auto simp: doSendMessage_attempt simp del: doSendMessage.simps reloadDevicesAndSend.simps)
qed

theorem second_410_is_final_witness:
  "fst (doSendMessage env_410_always 2 ''alice'' [Str ''1''] True
          (OutgoingMessage_new env_410_always [] 42 [])) = Some (Inr ())
   \<and> map entry_reason
       (errors (snd (doSendMessage env_410_always 2 ''alice'' [Str ''1''] True
                       (OutgoingMessage_new env_410_always [] 42 []))))
     = [''Hit retry limit attempting to reload device list'']
   \<and> length (sends (OutgoingMessage_new env_410_always [] 42 [])
               (snd (doSendMessage env_410_always 2 ''alice'' [Str ''1''] True
                      (OutgoingMessage_new env_410_always [] 42 [])))) = 2"
proof -
  let ?E = env_410_always
  let ?s = "OutgoingMessage_new ?E [] 42 []"
  let ?resp = "\<lparr>extraDevices = None, missingDevices = None, staleDevices = Some [Num 1]\<rparr>"
  let ?hit = "''Hit retry limit attempting to reload device list''"
  have att_any: "\<exists>cs s2. attempt ?E ''alice'' [Str ''1''] t
                             = Some (cs, Inl (ProtocolError 410 ?resp), s2)
                           \<and> cs ''1'' = Some (''alice'', Str ''1'')"
    for t
    by (simp add: attempt_def paddedBuf_of_eq encryptToDevice_def transmitMessage_def
                  signal_send_def Let_def env_410_always_def env_ok_def)
  obtain cs s2 where
    att: "attempt ?E ''alice'' [Str ''1''] ?s = Some (cs, Inl (ProtocolError 410 ?resp), s2)"
    and cs: "cs ''1'' = Some (''alice'', Str ''1'')"
    using att_any by blast
  have "\<exists>s3. reconcile ?E ''alice'' cs (ProtocolError 410 ?resp) s2 = (Inr (), s3)"
    by (simp add: reconcile_def cs text_of_small_numbers Let_def signal_getKeys_def
                  env_410_always_def env_ok_def)
  then obtain s3 where rc: "reconcile ?E ''alice'' cs (ProtocolError 410 ?resp) s2 = (Inr (), s3)"
    by blast
  have "\<exists>s3'. storage_getDeviceIds ?E ''alice'' s3 = (Inr [Str ''1''], s3')"
    by (simp add: storage_getDeviceIds_def Let_def env_410_always_def env_ok_def)
  then obtain s3' where gd: "storage_getDeviceIds ?E ''alice'' s3 = (Inr [Str ''1''], s3')"
    by blast
  obtain cs' t2 where
    att2: "attempt ?E ''alice'' [Str ''1''] s3' = Some (cs', Inl (ProtocolError 410 ?resp), t2)"
    using att_any by blast
  note T = second_410_is_final[where env="?E" and a="''alice''"]
  have first: "doSendMessage ?E (Suc 1) ''alice'' [Str ''1''] True ?s =
          (case reloadDevicesAndSend ?E 1 ''alice'' False s3 of
             (None, s4) \<Rightarrow> (None, s4)
           | (Some (Inl e'), s4) \<Rightarrow>
               (Some (Inr ()), emitError ?E ''alice'' ''Failed to reload device keys'' (Some e') s4)
           | (Some (Inr u), s4) \<Rightarrow> (Some (Inr ()), emitSent ?E ''alice'' s4))"
    using T[where s="?s" and ids="[Str ''1'']" and cs=cs and resp="?resp" and ?s2.0=s2 and u="()"
              and ?s3.0=s3 and n=1] att rc
    by blast
  have second: "doSendMessage ?E (Suc 0) ''alice'' [Str ''1''] False s3' =
          (Some (Inr ()), emitError ?E ''alice'' ?hit (Some (ProtocolError 410 ?resp)) t2)"
    using T[where t=s3' and ids'="[Str ''1'']" and cs'=cs' and resp'="?resp" and ?t2.0=t2 and c=410
              and n=0] att2
    by blast
  have run: "doSendMessage ?E 2 ''alice'' [Str ''1''] True ?s
               = (Some (Inr ()), emitSent ?E ''alice''
                    (emitError ?E ''alice'' ?hit (Some (ProtocolError 410 ?resp)) t2))"
    using first second gd
    by (simp add: numeral_2_eq_2 del: doSendMessage.simps)
  have q: "quiet (\<lambda>ev. True) ?s t2"
  proof -
    have "quiet (\<lambda>ev. True) ?s s2" using att by (rule attempt_quiet)
    moreover have "quiet (\<lambda>ev. True) s2 s3" using rc by (rule quiet_reconcile) simp
    moreover have "quiet (\<lambda>ev. True) s3 s3'" using gd by (rule quiet_getDeviceIds) simp
    moreover have "quiet (\<lambda>ev. True) s3' t2" using att2 by (rule attempt_quiet)
    ultimately show ?thesis using quiet_trans by blast
  qed
  then have "errors t2 = []" by (simp add: quiet_def OutgoingMessage_new_def)
  then have reasons: "map entry_reason (errors (snd (doSendMessage ?E 2 ''alice'' [Str ''1''] True ?s)))
                        = [?hit]"
    unfolding run by (simp add: emitSent_def emitError_def Let_def)
  have "length (sends ?s (snd (doSendMessage ?E 2 ''alice'' [Str ''1''] True ?s))) = 2"
    by code_simp
  with run reasons show ?thesis by simp
qed

section \<open>A changed identity key\<close>

lemma reentrant_no_keychange:
  "filter is_keychange (new_events t (snd (getKeysForAddr env a u True t))) = []"
proof -
  have "quiet (\<lambda>ev. \<not> is_keychange ev) t (snd (getKeysForAddr env a u True t))"
    using getKeys_quiet(4)[of "\<lambda>ev. \<not> is_keychange ev" u a True t env] by simp
  then have "list_all (\<lambda>ev. \<not> is_keychange ev) (new_events t (snd (getKeysForAddr env a u True t)))"
    by (simp add: quiet_def extends_def)
  then show ?thesis by (simp add: list_all_iff filter_empty_conv)
qed

text \<open>
  C8, as amended. When the session builder fails with the message "Identity key changed"
  for a device that \<open>getKeysForAddr\<close> processes: a reentrant call rethrows an
  \<open>OutgoingIdentityKeyError\<close> with the new identity key and emits nothing; a call that
  is not reentrant emits one \<open>keychange\<close> with that error, rethrows it when the flag
  \<open>accepted\<close> is not set afterwards (as when no callback is registered), and otherwise
  calls \<open>getKeysForAddr\<close> again for the same address and devices with \<open>reentrant\<close>
  true. A reentrant call never emits a \<open>keychange\<close>. When the key exchange of a dispatch
  ends with the error, the dispatch ends with one error entry that holds it, unwrapped.
  (The devices that the loop of the first call goes on to may each prompt again.)
\<close>

theorem identity_key_changed:
  assumes sel: "case u of None \<Rightarrow> True | Some ds \<Rightarrow> deviceId dev \<in> set ds"
      and pk: "processPreKey env (trace s) a (dev\<lparr>identityKey := Some (resp_identityKey response)\<rparr>)
                 = Inl e"
      and idc: "error_message e = Some ''Identity key changed''"
      and s1: "s1 = log (Ev_processPreKey a (dev\<lparr>identityKey := Some (resp_identityKey response)\<rparr>)
                          (Inl e)) s"
      and ke: "keyError = OutgoingIdentityKeyError a (message s) (timestamp s)
                            (resp_identityKey response) False"
  shows "handleResult_job env a u True response dev s = (Inl keyError, s1)
     \<and> handleResult_job env a u False response dev s =
         (if fst (emit ''keychange'' (KeyChange_payload keyError) False s1)
          then getKeysForAddr env a u True (snd (emit ''keychange'' (KeyChange_payload keyError) False s1))
          else (Inl keyError, snd (emit ''keychange'' (KeyChange_payload keyError) False s1)))
     \<and> trace (snd (emit ''keychange'' (KeyChange_payload keyError) False s1))
         = trace s1 @ [Ev_emit ''keychange'' (KeyChange_payload keyError)]
     \<and> (listeners s ''keychange'' = None
          \<longrightarrow> \<not> fst (emit ''keychange'' (KeyChange_payload keyError) False s1))
     \<and> filter is_keychange (new_events t (snd (getKeysForAddr env a' u' True t))) = []
     \<and> (getKeysForAddr env a'' (Some ds) False t1 = (Inl keyError, t2)
          \<longrightarrow> getStaleDeviceIdsForAddr env a'' t0 = (Inr ds, t1)
          \<longrightarrow> sendToAddr env n a'' t0
                = (Some (), emitError env a''
                     (''Failed to retrieve new device keys for address '' @ a'') (Some keyError) t2)
              \<and> map entry_error (errors (snd (sendToAddr env n a'' t0)))
                = map entry_error (errors t2) @ [keyError])"
proof -
  let ?dev = "dev\<lparr>identityKey := Some (resp_identityKey response)\<rparr>"
  have b: "builder_processPreKey env a ?dev s = (Inl e, s1)"
    by (simp add: builder_processPreKey_def Let_def pk s1)
  have f: "timestamp s1 = timestamp s" "message s1 = message s" "listeners s1 = listeners s"
    by (simp_all add: s1)
  have sel': "case u of None \<Rightarrow> True | Some ds \<Rightarrow> deviceId ?dev \<in> set ds"
    using sel by (cases u) simp_all
  have one: "handleResult_job env a u True response dev s = (Inl keyError, s1)"
    using sel' b idc by (simp add: Let_def ke f)
  have two: "handleResult_job env a u False response dev s =
         (if fst (emit ''keychange'' (KeyChange_payload keyError) False s1)
          then getKeysForAddr env a u True (snd (emit ''keychange'' (KeyChange_payload keyError) False s1))
          else (Inl keyError, snd (emit ''keychange'' (KeyChange_payload keyError) False s1)))"
    using sel' b idc
    by (simp add: Let_def ke f split: prod.splits del: getKeysForAddr.simps)
  have three: "trace (snd (emit ''keychange'' (KeyChange_payload keyError) False s1))
                 = trace s1 @ [Ev_emit ''keychange'' (KeyChange_payload keyError)]"
    by simp
  have four: "listeners s ''keychange'' = None
                \<longrightarrow> \<not> fst (emit ''keychange'' (KeyChange_payload keyError) False s1)"
    by (simp add: emit_def Let_def f)
  have five: "filter is_keychange (new_events t (snd (getKeysForAddr env a' u' True t))) = []"
    by (rule reentrant_no_keychange)
  have six: "getKeysForAddr env a'' (Some ds) False t1 = (Inl keyError, t2)
          \<longrightarrow> getStaleDeviceIdsForAddr env a'' t0 = (Inr ds, t1)
          \<longrightarrow> sendToAddr env n a'' t0
                = (Some (), emitError env a''
                     (''Failed to retrieve new device keys for address '' @ a'') (Some keyError) t2)
              \<and> map entry_error (errors (snd (sendToAddr env n a'' t0)))
                = map entry_error (errors t2) @ [keyError]"
    by (simp add: sendToAddr_def emitError_errors ke del: getKeysForAddr.simps)
  show ?thesis
    using one two three four five six by (intro conjI)
qed

theorem identity_key_changed_witness:
  "handleResult_job env_identity_changed ''alice'' (Some [Num 1]) True (one_bundle (Some (Num 1)))
       (device_bundle (Num 1)) (OutgoingMessage_new env_identity_changed [] 42 [])
     = (Inl (OutgoingIdentityKeyError ''alice'' [] 42 [7] False),
        log (Ev_processPreKey ''alice'' ((device_bundle (Num 1))\<lparr>identityKey := Some [7]\<rparr>)
               (Inl (Error ''Identity key changed'')))
            (OutgoingMessage_new env_identity_changed [] 42 []))
   \<and> fst (handleResult_job env_identity_changed ''alice'' (Some [Num 1]) False (one_bundle (Some (Num 1)))
            (device_bundle (Num 1)) (OutgoingMessage_new env_identity_changed [] 42 []))
     = Inl (OutgoingIdentityKeyError ''alice'' [] 42 [7] False)
   \<and> map entry_error
        (errors (snd (sendToAddr env_identity_changed 2 ''alice''
                        (OutgoingMessage_new env_identity_changed [] 42 []))))
     = [OutgoingIdentityKeyError ''alice'' [] 42 [7] False]
   \<and> map (\<lambda>x. (entry_reason x, entry_error x))
        (errors (snd (sendToAddr env_identity_changed_410 2 ''alice''
                        (OutgoingMessage_new env_identity_changed_410 [] 42 []))))
     = [(''Failed to send to address alice'',
         OutgoingIdentityKeyError ''alice'' [] 42 [7] False)]"
proof -
  let ?E = env_identity_changed
  let ?s = "OutgoingMessage_new ?E [] 42 []"
  let ?dev = "(device_bundle (Num 1))\<lparr>identityKey := Some (resp_identityKey (one_bundle (Some (Num 1))))\<rparr>"
  let ?e = "Error ''Identity key changed''"
  let ?s1 = "log (Ev_processPreKey ''alice'' ?dev (Inl ?e)) ?s"
  let ?ke = "OutgoingIdentityKeyError ''alice'' (message ?s) (timestamp ?s)
               (resp_identityKey (one_bundle (Some (Num 1)))) False"
  have sel: "case Some [Num 1] of None \<Rightarrow> True | Some ds \<Rightarrow> deviceId (device_bundle (Num 1)) \<in> set ds"
    by (simp add: device_bundle_def)
  have pk: "processPreKey ?E (trace ?s) ''alice'' ?dev = Inl ?e"
    by (simp add: env_identity_changed_def)
  have idc: "error_message ?e = Some ''Identity key changed''" by simp
  have none: "listeners ?s ''keychange'' = None" by (simp add: OutgoingMessage_new_def)
  note T = identity_key_changed[OF sel pk idc refl refl]
  have reent: "handleResult_job ?E ''alice'' (Some [Num 1]) True (one_bundle (Some (Num 1)))
                 (device_bundle (Num 1)) ?s = (Inl ?ke, ?s1)"
    using T by (rule conjunct1)
  have rej: "\<not> fst (emit ''keychange'' (KeyChange_payload ?ke) False ?s1)"
    using T none by blast
  have plain: "handleResult_job ?E ''alice'' (Some [Num 1]) False (one_bundle (Some (Num 1)))
                 (device_bundle (Num 1)) ?s
               = (Inl ?ke, snd (emit ''keychange'' (KeyChange_payload ?ke) False ?s1))"
    using T[THEN conjunct2, THEN conjunct1] rej by (simp del: handleResult_job.simps)
  have reent': "handleResult_job ?E ''alice'' (Some [Num 1]) True (one_bundle (Some (Num 1)))
       (device_bundle (Num 1)) ?s
     = (Inl (OutgoingIdentityKeyError ''alice'' [] 42 [7] False),
        log (Ev_processPreKey ''alice'' ((device_bundle (Num 1))\<lparr>identityKey := Some [7]\<rparr>)
               (Inl (Error ''Identity key changed''))) ?s)"
    unfolding reent by (simp add: OutgoingMessage_new_def one_bundle_def)
  have plain': "fst (handleResult_job ?E ''alice'' (Some [Num 1]) False (one_bundle (Some (Num 1)))
            (device_bundle (Num 1)) ?s)
     = Inl (OutgoingIdentityKeyError ''alice'' [] 42 [7] False)"
    unfolding plain by (simp add: OutgoingMessage_new_def one_bundle_def)
  have kev: "?ke = OutgoingIdentityKeyError ''alice'' [] 42 [7] False"
    by (simp add: OutgoingMessage_new_def one_bundle_def)
  define t1 where "t1 = snd (getStaleDeviceIdsForAddr ?E ''alice'' ?s)"
  define t2 where "t2 = snd (getKeysForAddr ?E ''alice'' (Some [Num 1]) False t1)"
  have "fst (getStaleDeviceIdsForAddr ?E ''alice'' ?s) = Inr [Num 1]"
    by code_simp
  then have stale: "getStaleDeviceIdsForAddr ?E ''alice'' ?s = (Inr [Num 1], t1)"
    by (simp add: t1_def prod_eq_iff)
  have "fst (getKeysForAddr ?E ''alice'' (Some [Num 1]) False t1)
          = Inl (OutgoingIdentityKeyError ''alice'' [] 42 [7] False)"
    unfolding t1_def by code_simp
  then have gk: "getKeysForAddr ?E ''alice'' (Some [Num 1]) False t1 = (Inl ?ke, t2)"
    unfolding kev by (simp add: t2_def prod_eq_iff del: getKeysForAddr.simps)
  have no_errors: "errors t2 = []"
    unfolding t2_def t1_def by code_simp
  note T6 = T[THEN conjunct2, THEN conjunct2, THEN conjunct2, THEN conjunct2, THEN conjunct2]
  have "map entry_error (errors (snd (sendToAddr ?E 2 ''alice'' ?s)))
          = map entry_error (errors t2) @ [?ke]"
    using T6[THEN mp, OF gk, THEN mp, OF stale] by (rule conjunct2)
  then have disp: "map entry_error (errors (snd (sendToAddr ?E 2 ''alice'' ?s)))
                = [OutgoingIdentityKeyError ''alice'' [] 42 [7] False]"
    unfolding kev no_errors by simp
  have recovery: "map (\<lambda>x. (entry_reason x, entry_error x))
        (errors (snd (sendToAddr env_identity_changed_410 2 ''alice''
                        (OutgoingMessage_new env_identity_changed_410 [] 42 []))))
     = [(''Failed to send to address alice'',
         OutgoingIdentityKeyError ''alice'' [] 42 [7] False)]"
    by code_simp
  show ?thesis
    using reent' plain' disp recovery by (intro conjI)
qed

text \<open>
  C8 as the specification states it fails. The devices \<open>"2"\<close>, \<open>"3"\<close> and \<open>"4"\<close>
  have open sessions and the first send is answered by a 410 that names the three as
  stale; their identity key keeps changing and the callback accepts. The key exchange
  of the recovery prompts once for each device of its loop: one dispatch emits three
  \<open>keychange\<close> events for the same address and records no error. (Its log \<open>sent\<close>
  has two entries, one of the send that succeeded and one of the call that recovered.)
\<close>

theorem keychange_three_prompts_counterexample:
  "length (filter is_keychange
       (trace (snd (sendToAddr env_identity_flapping 2 ''alice''
          (on ''keychange'' accept_keychange
             (OutgoingMessage_new env_identity_flapping [] 42 []))))))
     = 3
   \<and> outcome (sendToAddr env_identity_flapping 2 ''alice''
        (on ''keychange'' accept_keychange (OutgoingMessage_new env_identity_flapping [] 42 [])))
     = (Some (), [''alice'', ''alice''], [])"
  by code_simp

end
